theory Spec2Isabelle
  imports Complex_Main "HOL-Library.Multiset" "HOL-Library.Word" "HOL-Library.Log_Nat"
begin

section \<open>JavaScript strings and numbers\<close>

text \<open>
  A JavaScript string is a sequence of 16-bit code units. \<open>str\<close> gives the
  string that a literal of the program denotes; the literals of this program
  hold ASCII characters only.
\<close>

type_synonym code_unit = "16 word"

type_synonym jstring = "code_unit list"

definition str :: "string \<Rightarrow> jstring" where
  "str s = map of_char s"

text \<open>
  A JavaScript number is a double. A finite one is modelled by the rational it
  denotes, \<open>Finite 0\<close> being \<open>+0\<close>; \<open>-0\<close> and the two infinities are values of
  their own. \<open>NaN\<close> is left out: \<^verbatim>\<open>JSON.parse\<close> never returns it, and the
  program computes with no number but its counter.

  \<open>to_double neg x\<close> is the double that a numeral of magnitude \<open>x\<close> (with a minus
  sign when \<open>neg\<close>) denotes: the nearest double, a tie going to the even
  significand. \<open>binade x\<close> is the exponent \<open>e\<close> with \<open>2 ^ e \<le> x < 2 ^ (e + 1)\<close>;
  doubles at that exponent are the multiples of \<open>2 ^ (e - 52)\<close>, those below
  \<open>2 ^ - 1022\<close> the multiples of \<open>2 ^ - 1074\<close>, and a magnitude that rounds to
  \<open>2 ^ 1024\<close> or more gives an infinity.
\<close>

datatype number = Finite rat | NegZero | Infinity | NegInfinity

definition round_half_even :: "rat \<Rightarrow> int" where
  "round_half_even x =
     (let f = \<lfloor>x\<rfloor>; r = x - of_int f
      in if r < 1 / 2 then f
         else if 1 / 2 < r then f + 1
         else if even f then f else f + 1)"

definition binade :: "rat \<Rightarrow> int" where
  "binade x =
     (let (a, b) = quotient_of x; d = bitlen a - bitlen b
      in if 2 powi d \<le> x then d else d - 1)"

definition to_double :: "bool \<Rightarrow> rat \<Rightarrow> number" where
  "to_double neg x =
     (let s = max (binade x) (- 1022) - 52;
          r = of_int (round_half_even (x / 2 powi s)) * 2 powi s
      in if r = 0 then (if neg then NegZero else Finite 0)
         else if 2 ^ 1024 \<le> r then (if neg then NegInfinity else Infinity)
         else Finite (if neg then - r else r))"

section \<open>JSON values and the runtime's JSON.parse\<close>

text \<open>
  The extension exchanges JSON texts with its Python worker. The values that
  \<^verbatim>\<open>JSON.parse\<close> can return are modelled by \<open>json\<close>. An object keeps its members
  in source order, and reading a property takes the last member of that
  name, as \<^verbatim>\<open>JSON.parse\<close> does for a repeated key. \<open>undefined\<close> is not a JSON
  value: a value that may be undefined is a \<open>json option\<close>, \<open>None\<close> standing for
  \<open>undefined\<close>. A chunk read from the worker is modelled by the text that
  \<^verbatim>\<open>data.toString()\<close> gives for it, which is all that the code reads of a chunk.
\<close>

datatype json =
    JNull
  | JBool bool
  | JNum number
  | JStr jstring
  | JArr "json list"
  | JObj "(jstring \<times> json) list"

datatype js_error = SyntaxError | TypeError

datatype token = TLBrace | TRBrace | TLBrack | TRBrack | TColon | TComma | TLit json

subsection \<open>Lexical structure\<close>

text \<open>
  White space is the space, the tab, the line feed and the carriage return
  (\<open>0x20\<close>, \<open>0x09\<close>, \<open>0x0A\<close>, \<open>0x0D\<close>); \<open>0x22\<close> is the double quote and \<open>0x5C\<close> the
  backslash.
\<close>

definition is_ws :: "code_unit \<Rightarrow> bool" where
  "is_ws c = (c = 0x20 \<or> c = 0x09 \<or> c = 0x0A \<or> c = 0x0D)"

definition is_digit :: "code_unit \<Rightarrow> bool" where
  "is_digit c = (c \<in> set (str ''0123456789''))"

definition is_numch :: "code_unit \<Rightarrow> bool" where
  "is_numch c = (c \<in> set (str ''0123456789+-.eE''))"

definition digit_val :: "code_unit \<Rightarrow> nat" where
  "digit_val c = unat c - 48"

definition digits_val :: "jstring \<Rightarrow> nat" where
  "digits_val ds = foldl (\<lambda>n d. 10 * n + digit_val d) 0 ds"

definition hex_val :: "code_unit \<Rightarrow> nat option" where
  "hex_val c =
     (if is_digit c then Some (unat c - 48)
      else if c \<in> set (str ''abcdef'') then Some (unat c - 87)
      else if c \<in> set (str ''ABCDEF'') then Some (unat c - 55)
      else None)"

text \<open>A \<^verbatim>\<open>\uXXXX\<close> escape denotes the code unit \<open>XXXX\<close>.\<close>

definition hex4 ::
  "code_unit \<Rightarrow> code_unit \<Rightarrow> code_unit \<Rightarrow> code_unit \<Rightarrow> code_unit option" where
  "hex4 a b c d =
     (case (hex_val a, hex_val b, hex_val c, hex_val d) of
        (Some x, Some y, Some z, Some u) \<Rightarrow> Some (of_nat (4096 * x + 256 * y + 16 * z + u))
      | _ \<Rightarrow> None)"

definition unescape :: "code_unit \<Rightarrow> code_unit option" where
  "unescape e =
     (if e = 0x22 \<or> e = 0x5C \<or> e = of_char CHR ''/'' then Some e
      else if e = of_char CHR ''b'' then Some 0x08
      else if e = of_char CHR ''f'' then Some 0x0C
      else if e = of_char CHR ''n'' then Some 0x0A
      else if e = of_char CHR ''r'' then Some 0x0D
      else if e = of_char CHR ''t'' then Some 0x09
      else None)"

text \<open>
  \<open>lex_string acc cs\<close> reads the rest of a string token, the opening quote
  already consumed: up to the closing quote, no raw control character, every
  backslash starting one of the escapes of the JSON grammar.
\<close>

fun lex_string :: "jstring \<Rightarrow> jstring \<Rightarrow> (jstring \<times> jstring) option" where
  "lex_string acc [] = None"
| "lex_string acc (c # cs) =
     (if c = 0x22 then Some (rev acc, cs)
      else if c = 0x5C then
        (case cs of
           [] \<Rightarrow> None
         | e # cs' \<Rightarrow>
             (if e = of_char CHR ''u'' then
                (case cs' of
                   a # b # x # d # rest \<Rightarrow>
                     (case hex4 a b x d of
                        None \<Rightarrow> None
                      | Some ch \<Rightarrow> lex_string (ch # acc) rest)
                 | _ \<Rightarrow> None)
              else
                (case unescape e of
                   None \<Rightarrow> None
                 | Some ch \<Rightarrow> lex_string (ch # acc) cs')))
      else if c < 0x20 then None
      else lex_string (c # acc) cs)"

text \<open>
  A number token: an optional minus sign, an integer part without a leading
  zero, an optional fraction, an optional exponent. Its value is the double
  nearest to the decimal it spells.
\<close>

definition parse_exponent :: "jstring \<Rightarrow> int option" where
  "parse_exponent s =
     (case s of
        [] \<Rightarrow> Some 0
      | c # r \<Rightarrow>
          (if c = of_char CHR ''e'' \<or> c = of_char CHR ''E'' then
             (let (neg, ds) =
                    (case r of
                       [] \<Rightarrow> (False, r)
                     | sg # r' \<Rightarrow>
                         (if sg = of_char CHR ''-'' then (True, r')
                          else if sg = of_char CHR ''+'' then (False, r')
                          else (False, r)))
              in if ds \<noteq> [] \<and> list_all is_digit ds
                 then Some (if neg then - int (digits_val ds) else int (digits_val ds))
                 else None)
           else None))"

definition parse_fraction :: "jstring \<Rightarrow> (rat \<times> jstring) option" where
  "parse_fraction s =
     (case s of
        [] \<Rightarrow> Some (0, s)
      | c # r \<Rightarrow>
          (if c = of_char CHR ''.'' then
             (let ds = takeWhile is_digit r
              in if ds = [] then None
                 else Some (of_nat (digits_val ds) / 10 ^ length ds, dropWhile is_digit r))
           else Some (0, s)))"

definition parse_number :: "jstring \<Rightarrow> number option" where
  "parse_number s =
     (let (neg, s1) =
            (case s of
               [] \<Rightarrow> (False, s)
             | c # r \<Rightarrow> (if c = of_char CHR ''-'' then (True, r) else (False, s)));
          ip = takeWhile is_digit s1
      in if ip = [] \<or> (hd ip = of_char CHR ''0'' \<and> length ip \<noteq> 1) then None
         else
           (case parse_fraction (dropWhile is_digit s1) of
              None \<Rightarrow> None
            | Some (fr, s2) \<Rightarrow>
                (case parse_exponent s2 of
                   None \<Rightarrow> None
                 | Some ex \<Rightarrow>
                     (let m = of_nat (digits_val ip) + fr;
                          v = (if ex < 0 then m / 10 ^ nat (- ex) else m * 10 ^ nat ex)
                      in Some (to_double neg v)))))"

lemma lex_string_shorter:
  "lex_string acc cs = Some (s, rest) \<Longrightarrow> length rest < Suc (length cs)"
proof (induction acc cs rule: lex_string.induct)
  case (1 acc)
  then show ?case by simp
next
  case (2 acc c cs)
  show ?case
  proof (cases "c = 0x22")
    case True
    with "2.prems" show ?thesis by simp
  next
    case nq: False
    show ?thesis
    proof (cases "c = 0x5C")
      case bs: True
      show ?thesis
      proof (cases cs)
        case Nil
        with "2.prems" nq bs show ?thesis by simp
      next
        case (Cons e cs')
        show ?thesis
        proof (cases "e = of_char CHR ''u''")
          case u: True
          from "2.prems" nq bs Cons u obtain a b x d r ch where
            cs': "cs' = a # b # x # d # r" and h: "hex4 a b x d = Some ch"
            and l: "lex_string (ch # acc) r = Some (s, rest)"
            by (simp split: list.splits option.splits)
          have "length rest < Suc (length r)"
            using "2.IH"(1) nq bs Cons u cs' h l by blast
          then show ?thesis
            using Cons cs' by simp
        next
          case nu: False
          from "2.prems" nq bs Cons nu obtain ch where
            h: "unescape e = Some ch" and l: "lex_string (ch # acc) cs' = Some (s, rest)"
            by (simp split: option.splits)
          from "2.IH"(2) [OF nq bs Cons nu h l] show ?thesis
            using Cons by simp
        qed
      qed
    next
      case nbs: False
      from "2.prems" nq nbs have c32: "\<not> c < 0x20"
        and l: "lex_string (c # acc) cs = Some (s, rest)"
        by (simp_all split: if_splits)
      from "2.IH"(3) [OF nq nbs c32 l] show ?thesis by simp
    qed
  qed
qed

function lex :: "jstring \<Rightarrow> token list option" where
  "lex [] = Some []"
| "lex (c # cs) =
     (if is_ws c then lex cs
      else if c = of_char CHR ''{'' then map_option (Cons TLBrace) (lex cs)
      else if c = of_char CHR ''}'' then map_option (Cons TRBrace) (lex cs)
      else if c = of_char CHR ''['' then map_option (Cons TLBrack) (lex cs)
      else if c = of_char CHR '']'' then map_option (Cons TRBrack) (lex cs)
      else if c = of_char CHR '':'' then map_option (Cons TColon) (lex cs)
      else if c = of_char CHR '','' then map_option (Cons TComma) (lex cs)
      else if c = 0x22 then
        (case lex_string [] cs of
           None \<Rightarrow> None
         | Some (s, rest) \<Rightarrow> map_option (Cons (TLit (JStr s))) (lex rest))
      else if c = of_char CHR ''-'' \<or> is_digit c then
        (case parse_number (c # takeWhile is_numch cs) of
           None \<Rightarrow> None
         | Some q \<Rightarrow> map_option (Cons (TLit (JNum q))) (lex (dropWhile is_numch cs)))
      else if take 4 (c # cs) = str ''true'' then
        map_option (Cons (TLit (JBool True))) (lex (drop 3 cs))
      else if take 5 (c # cs) = str ''false'' then
        map_option (Cons (TLit (JBool False))) (lex (drop 4 cs))
      else if take 4 (c # cs) = str ''null'' then
        map_option (Cons (TLit JNull)) (lex (drop 3 cs))
      else None)"
  by pat_completeness auto
termination
proof (relation "measure length")
  show "wf (measure length)" by simp
next
  fix c cs and x2 :: "jstring \<times> jstring" and x y
  assume "lex_string [] cs = Some x2" "(x, y) = x2"
  then show "(y, c # cs) \<in> measure length"
    using lex_string_shorter [of "[]" cs x y] by simp
next
  fix c cs
  show "(dropWhile is_numch cs, c # cs) \<in> measure length"
    using length_dropWhile_le [of is_numch cs] by simp
qed simp_all

subsection \<open>Grammar\<close>

text \<open>
  The grammar is read by a pushdown recogniser, one token at a time. A frame
  is a container under construction: an array with its elements so far, or an
  object with its members so far and the name whose value is being read (both
  lists reversed). The states: \<open>PVal\<close> expects a value; \<open>PArr0\<close> and \<open>PObj0\<close>
  have just read an opening bracket or brace; \<open>PKey\<close> expects a member name
  after a comma; \<open>PCol\<close> expects the colon after a name; \<open>PAft\<close> has just
  completed a value.
\<close>

datatype frame = FArr "json list" | FObj "(jstring \<times> json) list" jstring

datatype pstate =
    PVal "frame list"
  | PArr0 "frame list"
  | PObj0 "frame list"
  | PKey "(jstring \<times> json) list" "frame list"
  | PCol "(jstring \<times> json) list" jstring "frame list"
  | PAft "frame list" json
  | PFail

definition start_value :: "frame list \<Rightarrow> token \<Rightarrow> pstate" where
  "start_value stk t =
     (case t of
        TLit v \<Rightarrow> PAft stk v
      | TLBrack \<Rightarrow> PArr0 stk
      | TLBrace \<Rightarrow> PObj0 stk
      | _ \<Rightarrow> PFail)"

definition member_name :: "(jstring \<times> json) list \<Rightarrow> frame list \<Rightarrow> token \<Rightarrow> pstate" where
  "member_name acc stk t =
     (case t of
        TLit v \<Rightarrow> (case v of JStr k \<Rightarrow> PCol acc k stk | _ \<Rightarrow> PFail)
      | _ \<Rightarrow> PFail)"

definition after_value :: "frame list \<Rightarrow> json \<Rightarrow> token \<Rightarrow> pstate" where
  "after_value stk v t =
     (case stk of
        [] \<Rightarrow> PFail
      | f # stk' \<Rightarrow>
          (case f of
             FArr acc \<Rightarrow>
               (case t of
                  TComma \<Rightarrow> PVal (FArr (v # acc) # stk')
                | TRBrack \<Rightarrow> PAft stk' (JArr (rev (v # acc)))
                | _ \<Rightarrow> PFail)
           | FObj acc k \<Rightarrow>
               (case t of
                  TComma \<Rightarrow> PKey ((k, v) # acc) stk'
                | TRBrace \<Rightarrow> PAft stk' (JObj (rev ((k, v) # acc)))
                | _ \<Rightarrow> PFail)))"

definition pstep :: "pstate \<Rightarrow> token \<Rightarrow> pstate" where
  "pstep st t =
     (case st of
        PVal stk \<Rightarrow> start_value stk t
      | PArr0 stk \<Rightarrow>
          (if t = TRBrack then PAft stk (JArr []) else start_value (FArr [] # stk) t)
      | PObj0 stk \<Rightarrow>
          (if t = TRBrace then PAft stk (JObj []) else member_name [] stk t)
      | PKey acc stk \<Rightarrow> member_name acc stk t
      | PCol acc k stk \<Rightarrow> (if t = TColon then PVal (FObj acc k # stk) else PFail)
      | PAft stk v \<Rightarrow> after_value stk v t
      | PFail \<Rightarrow> PFail)"

definition parse_tokens :: "token list \<Rightarrow> json option" where
  "parse_tokens ts =
     (case foldl pstep (PVal []) ts of
        PAft stk v \<Rightarrow> (if stk = [] then Some v else None)
      | _ \<Rightarrow> None)"

text \<open>
  \<^verbatim>\<open>JSON.parse(text)\<close>: the value of the text, or \<open>None\<close> where the runtime throws
  a \<open>SyntaxError\<close>.
\<close>

definition JSON_parse :: "jstring \<Rightarrow> json option" where
  "JSON_parse s = (case lex s of None \<Rightarrow> None | Some ts \<Rightarrow> parse_tokens ts)"

section \<open>JavaScript values at run time\<close>

text \<open>
  Reading a property \<^verbatim>\<open>v.k\<close> of a parsed value: \<open>null\<close> has no properties and the
  read throws a \<open>TypeError\<close>; an object yields its member, or \<open>undefined\<close>;
  every other value yields \<open>undefined\<close> for the names read here (\<open>id\<close>,
  \<open>result\<close>, \<open>error\<close>), which no prototype defines.
\<close>

definition get_prop :: "json \<Rightarrow> jstring \<Rightarrow> js_error + json option" where
  "get_prop v k =
     (case v of
        JNull \<Rightarrow> Inl TypeError
      | JObj ms \<Rightarrow> Inr (map_of (rev ms) k)
      | _ \<Rightarrow> Inr None)"

text \<open>
  The falsy values among these are \<open>null\<close>, \<open>false\<close>, \<open>+0\<close>, \<open>-0\<close> and the empty
  string.
\<close>

definition truthy :: "json \<Rightarrow> bool" where
  "truthy v =
     (case v of
        JNull \<Rightarrow> False
      | JBool b \<Rightarrow> b
      | JNum n \<Rightarrow> n \<noteq> Finite 0 \<and> n \<noteq> NegZero
      | JStr s \<Rightarrow> s \<noteq> []
      | _ \<Rightarrow> True)"

text \<open>
  The keys of \<^verbatim>\<open>Map<number, PendingRequest>\<close> are the identifiers that
  \<open>sendRequest\<close> allocates, natural numbers. A lookup with a number finds the
  key of the same value, \<open>-0\<close> being the same key as \<open>+0\<close>; a lookup with any
  other value (a string, a fraction, a negative number, an infinity,
  \<open>undefined\<close>) finds nothing.
\<close>

definition number_key :: "json option \<Rightarrow> nat option" where
  "number_key v =
     (case v of
        Some (JNum n) \<Rightarrow>
          (case n of
             Finite q \<Rightarrow> (if q = of_nat (nat \<lfloor>q\<rfloor>) then Some (nat \<lfloor>q\<rfloor>) else None)
           | NegZero \<Rightarrow> Some 0
           | _ \<Rightarrow> None)
      | _ \<Rightarrow> None)"

definition Map_get :: "(nat \<rightharpoonup> 'v) \<Rightarrow> json option \<Rightarrow> 'v option" where
  "Map_get m v = (case number_key v of None \<Rightarrow> None | Some k \<Rightarrow> m k)"

definition Map_delete :: "(nat \<rightharpoonup> 'v) \<Rightarrow> json option \<Rightarrow> (nat \<rightharpoonup> 'v)" where
  "Map_delete m v = (case number_key v of None \<Rightarrow> m | Some k \<Rightarrow> m(k := None))"

text \<open>
  The decimal numeral of a natural number, as a template literal prints an
  integer below \<open>10 ^ 21\<close>.
\<close>

definition digit_char :: "nat \<Rightarrow> code_unit" where
  "digit_char d = str ''0123456789'' ! d"

function show_nat :: "nat \<Rightarrow> jstring" where
  "show_nat n =
     (if n < 10 then [digit_char n]
      else show_nat (n div 10) @ [digit_char (n mod 10)])"
  by pat_completeness auto
termination
  by (relation "measure (\<lambda>n. n)") auto

declare show_nat.simps [simp del]

section \<open>The state of the extension host\<close>

text \<open>
  Objects are identified by references: promises, timeouts, child processes
  and request managers each by a number taken from an allocation counter.
  A promise is settled through its \<open>resolve\<close> and \<open>reject\<close> functions; the
  model records every call of either, in order.
\<close>

type_synonym promise = nat
type_synonym timer = nat
type_synonym pid = nat
type_synonym mref = nat

text \<open>
  A rejection carries the value passed to \<open>reject\<close>: a string or a JSON
  payload, or an \<open>Error\<close> object with its message.
\<close>

datatype reason = Thrown json | ErrorObject jstring

datatype outcome = Resolve json | Reject reason

record PendingRequest =
  id_req :: nat
  resolve :: promise
  reject :: promise
  timeout :: timer

text \<open>
  The counter \<open>requestId\<close> is a JavaScript number that starts at \<open>1\<close> and is only
  ever incremented; the model takes a natural number, which is what the
  counter holds as long as fewer than \<open>2 ^ 53\<close> identifiers have been allocated.
\<close>

record PythonRequestManager =
  pendingRequests :: "nat \<rightharpoonup> PendingRequest"
  requestId :: nat
  process :: pid

text \<open>
  The arrow function passed to \<open>setTimeout\<close> in \<open>sendRequest\<close> closes over the
  manager, the identifier, the method, the duration and the promise's
  \<open>reject\<close>.
\<close>

record timeout_closure =
  cb_this :: mref
  cb_id :: nat
  cb_method :: jstring
  cb_timeoutMs :: nat
  cb_reject :: promise

text \<open>
  A child process: its \<open>killed\<close> flag, its \<open>stdin\<close> (\<open>None\<close> for \<open>null\<close>; a stream
  that is open, or broken so that writing to it fails) and its \<open>stdout\<close>
  (\<open>None\<close> for \<open>null\<close>, else the listeners of its \<open>data\<close> event, in order of
  registration).
\<close>

datatype writable = Open | Broken

record 'l ChildProcess =
  killed :: bool
  stdin :: "writable option"
  stdout :: "'l list option"

record request =
  rq_jsonrpc :: jstring
  rq_id :: nat
  rq_method :: jstring
  rq_params :: json

datatype console_entry = ConsoleLog jstring | ConsoleWarn jstring | ConsoleError jstring

text \<open>
  The module's two variables \<open>pythonProcess\<close> and \<open>requestManager\<close>, the heap
  of processes and managers, the armed timeouts, the calls of \<open>resolve\<close> and
  \<open>reject\<close> so far, the console, and every request handed to a \<open>stdin.write\<close>
  (the line written is \<^verbatim>\<open>JSON.stringify(request) + '\n'\<close>).
\<close>

record world =
  pythonProcess :: "pid option"
  requestManager :: "mref option"
  procs :: "pid \<rightharpoonup> mref ChildProcess"
  managers :: "mref \<rightharpoonup> PythonRequestManager"
  timers :: "timer \<rightharpoonup> timeout_closure"
  settled :: "(promise \<times> outcome) list"
  console :: "console_entry list"
  written :: "(pid \<times> request) list"
  next_pid :: nat
  next_mref :: nat
  next_timer :: nat
  next_promise :: nat

definition init :: world where
  "init =
     \<lparr>pythonProcess = None, requestManager = None, procs = Map.empty,
      managers = Map.empty, timers = Map.empty, settled = [], console = [],
      written = [], next_pid = 0, next_mref = 0, next_timer = 0, next_promise = 0\<rparr>"

definition console_add :: "console_entry \<Rightarrow> world \<Rightarrow> world" where
  "console_add e w = w\<lparr>console := console w @ [e]\<rparr>"

definition clearTimeout :: "timer \<Rightarrow> world \<Rightarrow> world" where
  "clearTimeout h w = w\<lparr>timers := (timers w)(h := None)\<rparr>"

definition settle :: "promise \<Rightarrow> outcome \<Rightarrow> world \<Rightarrow> world" where
  "settle p out w = w\<lparr>settled := settled w @ [(p, out)]\<rparr>"

definition update_manager ::
  "mref \<Rightarrow> (PythonRequestManager \<Rightarrow> PythonRequestManager) \<Rightarrow> world \<Rightarrow> world" where
  "update_manager this f w =
     (case managers w this of
        None \<Rightarrow> w
      | Some mgr \<Rightarrow> w\<lparr>managers := (managers w)(this \<mapsto> f mgr)\<rparr>)"

section \<open>PythonRequestManager\<close>

subsection \<open>handleResponse\<close>

text \<open>
  The body of the \<open>try\<close> block of \<open>handleResponse\<close>. It returns \<open>Inr\<close> with the
  new state when it completes, and \<open>Inl\<close> with the exception and the state
  reached when \<^verbatim>\<open>JSON.parse\<close> or a property read throws.
\<close>

definition handleResponse_try ::
  "mref \<Rightarrow> jstring \<Rightarrow> world \<Rightarrow> (js_error \<times> world) + world" where
  "handleResponse_try this data w0 =
     (let w1 = console_add (ConsoleLog (str ''Raw Python response:'')) w0 in
      case JSON_parse data of
        None \<Rightarrow> Inl (SyntaxError, w1)
      | Some response \<Rightarrow>
          (let w2 = console_add (ConsoleLog (str ''Parsed Python response:'')) w1 in
           case get_prop response (str ''id'') of
             Inl e \<Rightarrow> Inl (e, w2)
           | Inr response_id \<Rightarrow>
               (case Option.bind (managers w2 this)
                       (\<lambda>mgr. Map_get (pendingRequests mgr) response_id) of
                  Some pendingRequest \<Rightarrow>
                    (let w3 = clearTimeout (timeout pendingRequest) w2;
                         w4 = update_manager this
                                (\<lambda>mgr. mgr\<lparr>pendingRequests :=
                                   Map_delete (pendingRequests mgr) response_id\<rparr>) w3;
                         malformed = settle (reject pendingRequest)
                           (Reject (Thrown (JStr (str ''No result or error in response'')))) w4
                     in case get_prop response (str ''result'') of
                          Inl e \<Rightarrow> Inl (e, w4)
                        | Inr (Some result) \<Rightarrow>
                            Inr (settle (resolve pendingRequest) (Resolve result) w4)
                        | Inr None \<Rightarrow>
                            (case get_prop response (str ''error'') of
                               Inl e \<Rightarrow> Inl (e, w4)
                             | Inr None \<Rightarrow> Inr malformed
                             | Inr (Some err) \<Rightarrow>
                                 (if truthy err then
                                    Inr (settle (reject pendingRequest) (Reject (Thrown err)) w4)
                                  else Inr malformed)))
                | None \<Rightarrow>
                    Inr (console_add
                           (ConsoleWarn (str ''Received response for unknown request ID:'')) w2))))"

text \<open>\<open>handleResponse\<close>: the \<open>try\<close> block, and the \<open>catch\<close> block that logs the exception.\<close>

definition handleResponse :: "mref \<Rightarrow> jstring \<Rightarrow> world \<Rightarrow> world" where
  "handleResponse this data w =
     (case handleResponse_try this data w of
        Inr w' \<Rightarrow> w'
      | Inl (e, w') \<Rightarrow> console_add (ConsoleError (str ''Failed to parse Python response:'')) w')"

subsection \<open>sendRequest\<close>

definition timeout_message :: "nat \<Rightarrow> jstring \<Rightarrow> nat \<Rightarrow> jstring" where
  "timeout_message i method timeoutMs =
     str ''Request '' @ show_nat i @ str '' ('' @ method @ str '') timed out after ''
       @ show_nat timeoutMs @ str ''ms''"

text \<open>The callback of the timeout armed by \<open>sendRequest\<close>.\<close>

definition timeout_callback :: "timeout_closure \<Rightarrow> world \<Rightarrow> world" where
  "timeout_callback cb w =
     (let msg = timeout_message (cb_id cb) (cb_method cb) (cb_timeoutMs cb);
          w1 = update_manager (cb_this cb)
                 (\<lambda>mgr. mgr\<lparr>pendingRequests := (pendingRequests mgr)(cb_id cb := None)\<rparr>) w;
          w2 = console_add (ConsoleError msg) w1
      in settle (cb_reject cb) (Reject (ErrorObject msg)) w2)"

text \<open>
  \<open>sendRequest\<close> returns the promise it creates. The executor of the promise
  runs at once: it takes the next identifier, arms the timeout, stores the
  pending request and writes the request to the worker's \<open>stdin\<close>, or, where
  \<open>stdin\<close> is \<open>null\<close>, undoes both and rejects. The outcome of the write
  is not inspected. (A reference \<open>this\<close> that denotes no manager cannot occur;
  the model does nothing there.)
\<close>

definition sendRequest :: "mref \<Rightarrow> jstring \<Rightarrow> json \<Rightarrow> nat \<Rightarrow> world \<Rightarrow> promise \<times> world" where
  "sendRequest this method params timeoutMs w =
     (case managers w this of
        None \<Rightarrow> (next_promise w, w)
      | Some mgr \<Rightarrow>
          (let p = next_promise w;
               i = requestId mgr;
               rq = \<lparr>rq_jsonrpc = str ''2.0'', rq_id = i, rq_method = method, rq_params = params\<rparr>;
               h = next_timer w;
               w1 = w\<lparr>next_promise := Suc p, next_timer := Suc h,
                      timers := (timers w)(h \<mapsto>
                        \<lparr>cb_this = this, cb_id = i, cb_method = method,
                         cb_timeoutMs = timeoutMs, cb_reject = p\<rparr>),
                      managers := (managers w)(this \<mapsto>
                        mgr\<lparr>requestId := i + 1,
                            pendingRequests := (pendingRequests mgr)(i \<mapsto>
                              \<lparr>id_req = i, resolve = p, reject = p, timeout = h\<rparr>)\<rparr>)\<rparr>
           in case Option.bind (procs w1 (process mgr)) stdin of
                Some s \<Rightarrow>
                  (p, (console_add (ConsoleLog (str ''Sending Python request:'')) w1)
                        \<lparr>written := written w1 @ [(process mgr, rq)]\<rparr>)
              | None \<Rightarrow>
                  (let w2 = clearTimeout h w1;
                       w3 = update_manager this
                              (\<lambda>m. m\<lparr>pendingRequests := (pendingRequests m)(i := None)\<rparr>) w2
                   in (p, settle p
                               (Reject (Thrown (JStr (str ''Python process stdin not available''))))
                            w3))))"

text \<open>The constructor: a fresh manager bound to a process, listening on its \<open>stdout\<close>.\<close>

definition new_PythonRequestManager :: "pid \<Rightarrow> world \<Rightarrow> mref \<times> world" where
  "new_PythonRequestManager pr w =
     (let this = next_mref w;
          w1 = w\<lparr>next_mref := Suc this,
                 managers := (managers w)(this \<mapsto>
                   \<lparr>pendingRequests = Map.empty, requestId = 1, process = pr\<rparr>)\<rparr>
      in case procs w1 pr of
           None \<Rightarrow> (this, w1)
         | Some c \<Rightarrow>
             (case stdout c of
                None \<Rightarrow> (this, w1)
              | Some ls \<Rightarrow>
                  (this, w1\<lparr>procs := (procs w1)(pr \<mapsto> c\<lparr>stdout := Some (ls @ [this])\<rparr>)\<rparr>)))"

section \<open>The worker process and the module's functions\<close>

text \<open>
  What \<^verbatim>\<open>cp.spawn\<close> returns is the environment's choice: a process whose
  \<open>stdin\<close> and \<open>stdout\<close> are streams or \<open>null\<close>. The listener that
  \<open>startPythonProcess\<close> puts on \<open>stderr\<close> only logs and is left out.
\<close>

record spawn_env =
  env_stdin :: "writable option"
  env_stdout :: bool

definition spawn :: "spawn_env \<Rightarrow> mref ChildProcess" where
  "spawn env =
     \<lparr>killed = False, stdin = env_stdin env,
      stdout = (if env_stdout env then Some [] else None)\<rparr>"

definition proc_killed :: "world \<Rightarrow> pid \<Rightarrow> bool" where
  "proc_killed w pr = (case procs w pr of None \<Rightarrow> False | Some c \<Rightarrow> killed c)"

definition startPythonProcess :: "spawn_env \<Rightarrow> world \<Rightarrow> pid \<times> world" where
  "startPythonProcess env w =
     (case pythonProcess w of
        Some pr \<Rightarrow>
          (if \<not> proc_killed w pr then (pr, w)
           else (next_pid w,
                 w\<lparr>next_pid := Suc (next_pid w), pythonProcess := Some (next_pid w),
                   procs := (procs w)(next_pid w \<mapsto> spawn env)\<rparr>))
      | None \<Rightarrow>
          (next_pid w,
           w\<lparr>next_pid := Suc (next_pid w), pythonProcess := Some (next_pid w),
             procs := (procs w)(next_pid w \<mapsto> spawn env)\<rparr>))"

text \<open>The listener of the \<open>exit\<close> event that \<open>startPythonProcess\<close> registers.\<close>

definition on_exit :: "world \<Rightarrow> world" where
  "on_exit w =
     (console_add (ConsoleLog (str ''Python process exited with code'')) w)
       \<lparr>pythonProcess := None, requestManager := None\<rparr>"

text \<open>
  \<open>getRequestManager\<close>: the condition \<^verbatim>\<open>!requestManager || !pythonProcess ||
  pythonProcess.killed\<close>, and the block that starts a process and binds a new
  manager to it. Where the condition is false, \<open>requestManager\<close> is not \<open>null\<close>
  and is returned.
\<close>

definition manager_invalid :: "world \<Rightarrow> bool" where
  "manager_invalid w =
     (requestManager w = None \<or>
      (case pythonProcess w of None \<Rightarrow> True | Some pr \<Rightarrow> proc_killed w pr))"

definition getRequestManager :: "spawn_env \<Rightarrow> world \<Rightarrow> mref \<times> world" where
  "getRequestManager env w =
     (if manager_invalid w then
        (let (pr, w1) = startPythonProcess env (w\<lparr>requestManager := None\<rparr>);
             (m, w2) = new_PythonRequestManager pr w1
         in (m, w2\<lparr>requestManager := Some m\<rparr>))
      else (the (requestManager w), w))"

definition sendToPython :: "jstring \<Rightarrow> json \<Rightarrow> spawn_env \<Rightarrow> world \<Rightarrow> promise \<times> world" where
  "sendToPython method params env w =
     (let (manager, w1) = getRequestManager env w
      in sendRequest manager method params 10000 w1)"

definition deactivate :: "world \<Rightarrow> world" where
  "deactivate w =
     (case pythonProcess w of
        Some pr \<Rightarrow>
          (if \<not> proc_killed w pr then
             w\<lparr>procs := (procs w)(pr := map_option (\<lambda>c. c\<lparr>killed := True\<rparr>) (procs w pr)),
               pythonProcess := None, requestManager := None\<rparr>
           else w\<lparr>requestManager := None\<rparr>)
      | None \<Rightarrow> w\<lparr>requestManager := None\<rparr>)"

section \<open>The event loop\<close>

text \<open>
  Everything runs on one event loop, one callback at a time. The events: a
  caller invokes \<open>sendToPython\<close>, or one of its two steps, \<open>getRequestManager\<close>
  and \<open>sendRequest\<close> on a manager; a chunk arrives on a process's \<open>stdout\<close> and
  every \<open>data\<close> listener is called with it; an armed timeout fires; a process
  exits and its \<open>exit\<close> listener runs; the pipe to a process's \<open>stdin\<close> breaks;
  the extension is deactivated. With the two steps as events of their own, the
  state in which \<open>sendToPython\<close> calls \<open>sendRequest\<close>, on a manager that
  \<open>getRequestManager\<close> may just have created, is a state that \<open>run\<close> reaches.
\<close>

datatype event =
    SendToPython jstring json spawn_env
  | GetRequestManager spawn_env
  | SendRequest mref jstring json nat
  | StdoutData pid jstring
  | TimerFires timer
  | ProcessExit pid
  | StdinBreaks pid
  | Deactivate

definition stdout_data :: "pid \<Rightarrow> jstring \<Rightarrow> world \<Rightarrow> world" where
  "stdout_data pr data w =
     (case Option.bind (procs w pr) stdout of
        None \<Rightarrow> w
      | Some ls \<Rightarrow> fold (\<lambda>this. handleResponse this data) ls w)"

definition timer_fires :: "timer \<Rightarrow> world \<Rightarrow> world" where
  "timer_fires h w =
     (case timers w h of
        None \<Rightarrow> w
      | Some cb \<Rightarrow> timeout_callback cb (w\<lparr>timers := (timers w)(h := None)\<rparr>))"

definition process_exit :: "pid \<Rightarrow> world \<Rightarrow> world" where
  "process_exit pr w = (case procs w pr of None \<Rightarrow> w | Some c \<Rightarrow> on_exit w)"

definition stdin_breaks :: "pid \<Rightarrow> world \<Rightarrow> world" where
  "stdin_breaks pr w =
     w\<lparr>procs := (procs w)(pr :=
          map_option (\<lambda>c. c\<lparr>stdin := map_option (\<lambda>s. Broken) (stdin c)\<rparr>) (procs w pr))\<rparr>"

fun step :: "event \<Rightarrow> world \<Rightarrow> world" where
  "step (SendToPython method params env) w = snd (sendToPython method params env w)"
| "step (GetRequestManager env) w = snd (getRequestManager env w)"
| "step (SendRequest this method params timeoutMs) w =
     snd (sendRequest this method params timeoutMs w)"
| "step (StdoutData pr data) w = stdout_data pr data w"
| "step (TimerFires h) w = timer_fires h w"
| "step (ProcessExit pr) w = process_exit pr w"
| "step (StdinBreaks pr) w = stdin_breaks pr w"
| "step Deactivate w = deactivate w"

definition run :: "event list \<Rightarrow> world \<Rightarrow> world" where
  "run es w = fold step es w"

section \<open>Settlements and reachable states\<close>

text \<open>The calls of \<open>resolve\<close> and \<open>reject\<close> made so far for one promise, in order.\<close>

definition outcomes :: "world \<Rightarrow> promise \<Rightarrow> outcome list" where
  "outcomes w p = map snd (filter (\<lambda>x. fst x = p) (settled w))"

text \<open>
  An inbound chunk that is a success envelope for identifier \<open>i\<close> with result
  \<open>r\<close>, and one that carries identifier \<open>i\<close> whatever else it holds.
\<close>

definition result_envelope :: "jstring \<Rightarrow> nat \<Rightarrow> json \<Rightarrow> bool" where
  "result_envelope data i r =
     (case JSON_parse data of
        None \<Rightarrow> False
      | Some response \<Rightarrow>
          get_prop response (str ''id'') = Inr (Some (JNum (Finite (of_nat i)))) \<and>
          get_prop response (str ''result'') = Inr (Some r))"

definition envelope_for :: "jstring \<Rightarrow> nat \<Rightarrow> bool" where
  "envelope_for data i =
     (case JSON_parse data of
        None \<Rightarrow> False
      | Some response \<Rightarrow> get_prop response (str ''id'') = Inr (Some (JNum (Finite (of_nat i)))))"

text \<open>
  The settlements that \<open>handleResponse\<close> makes: with a result, with a truthy
  error payload, or with the generic message.
\<close>

definition reply_outcome :: "outcome \<Rightarrow> bool" where
  "reply_outcome out =
     (case out of
        Resolve r \<Rightarrow> True
      | Reject x \<Rightarrow>
          (case x of
             Thrown e \<Rightarrow> truthy e \<or> e = JStr (str ''No result or error in response'')
           | ErrorObject msg \<Rightarrow> False))"

text \<open>
  Facts that hold in every state the event loop can reach. Each armed timeout
  belongs to an unsettled promise and to the pending request stored under its
  identifier; each pending request has an identifier below the manager's
  counter and an armed timeout; every promise issued has been settled at most
  once, and an unsettled one has its timeout armed; references that are not
  yet allocated denote nothing. (The counters of promises and timeouts advance
  together, so a call's promise and its timeout carry the same number.)
\<close>

definition timers_ok :: "world \<Rightarrow> bool" where
  "timers_ok w =
     (\<forall>h cb. timers w h = Some cb \<longrightarrow>
        h < next_timer w \<and> cb_reject cb = h \<and> outcomes w h = [] \<and>
        (\<exists>mgr e. managers w (cb_this cb) = Some mgr \<and>
           pendingRequests mgr (cb_id cb) = Some e \<and> timeout e = h))"

definition pending_ok :: "world \<Rightarrow> bool" where
  "pending_ok w =
     (\<forall>m mgr i e. managers w m = Some mgr \<longrightarrow> pendingRequests mgr i = Some e \<longrightarrow>
        i < requestId mgr \<and> id_req e = i \<and> reject e = resolve e \<and> resolve e = timeout e \<and>
        (\<exists>cb. timers w (timeout e) = Some cb \<and> cb_this cb = m \<and> cb_id cb = i))"

definition promises_ok :: "world \<Rightarrow> bool" where
  "promises_ok w =
     (next_promise w = next_timer w \<and>
      (\<forall>p. p < next_promise w \<longrightarrow>
         length (outcomes w p) \<le> 1 \<and> (outcomes w p = [] \<longrightarrow> timers w p \<noteq> None)) \<and>
      (\<forall>p. next_promise w \<le> p \<longrightarrow> outcomes w p = []))"

definition heap_ok :: "world \<Rightarrow> bool" where
  "heap_ok w =
     ((\<forall>m. next_mref w \<le> m \<longrightarrow> managers w m = None) \<and>
      (\<forall>pr. next_pid w \<le> pr \<longrightarrow> procs w pr = None) \<and>
      (\<forall>m. requestManager w = Some m \<longrightarrow> managers w m \<noteq> None) \<and>
      (\<forall>pr. pythonProcess w = Some pr \<longrightarrow> procs w pr \<noteq> None))"

definition inv :: "world \<Rightarrow> bool" where
  "inv w = (timers_ok w \<and> pending_ok w \<and> promises_ok w \<and> heap_ok w)"

section \<open>The command-panel version of sendToPython\<close>

text \<open>
  \<^verbatim>\<open>src/extension.ts\<close> has no request manager. Each call of its \<open>sendToPython\<close>
  registers a \<open>dataHandler\<close> of its own on the worker's \<open>stdout\<close>; a handler is
  identified by the promise it settles. The request identifier is
  \<^verbatim>\<open>Date.now()\<close>, the clock reading \<open>now\<close> given by the environment. A rejection
  with the template string \<^verbatim>\<open>`Failed to parse response: ${error}`\<close> is modelled
  by \<open>Thrown (JStr (str ''Failed to parse response: ''))\<close> followed by the name of the
  exception.
\<close>

record legacy_world =
  l_pythonProcess :: "pid option"
  l_procs :: "pid \<rightharpoonup> promise ChildProcess"
  l_settled :: "(promise \<times> outcome) list"
  l_written :: "(pid \<times> request) list"
  l_next_pid :: nat
  l_next_promise :: nat

definition legacy_init :: legacy_world where
  "legacy_init =
     \<lparr>l_pythonProcess = None, l_procs = Map.empty, l_settled = [], l_written = [],
      l_next_pid = 0, l_next_promise = 0\<rparr>"

definition legacy_spawn :: "spawn_env \<Rightarrow> promise ChildProcess" where
  "legacy_spawn env =
     \<lparr>killed = False, stdin = env_stdin env,
      stdout = (if env_stdout env then Some [] else None)\<rparr>"

definition legacy_startPythonProcess :: "spawn_env \<Rightarrow> legacy_world \<Rightarrow> pid \<times> legacy_world" where
  "legacy_startPythonProcess env w =
     (if (case l_pythonProcess w of
            None \<Rightarrow> False
          | Some pr \<Rightarrow> (case l_procs w pr of None \<Rightarrow> True | Some c \<Rightarrow> \<not> killed c))
      then (the (l_pythonProcess w), w)
      else (l_next_pid w,
            w\<lparr>l_next_pid := Suc (l_next_pid w), l_pythonProcess := Some (l_next_pid w),
              l_procs := (l_procs w)(l_next_pid w \<mapsto> legacy_spawn env)\<rparr>))"

definition legacy_settle :: "promise \<Rightarrow> outcome \<Rightarrow> legacy_world \<Rightarrow> legacy_world" where
  "legacy_settle p out w = w\<lparr>l_settled := l_settled w @ [(p, out)]\<rparr>"

definition error_name :: "js_error \<Rightarrow> jstring" where
  "error_name e = (case e of SyntaxError \<Rightarrow> (str ''SyntaxError'') | TypeError \<Rightarrow> (str ''TypeError''))"

definition removeListener :: "pid \<Rightarrow> promise \<Rightarrow> legacy_world \<Rightarrow> legacy_world" where
  "removeListener pr p w =
     (case l_procs w pr of
        None \<Rightarrow> w
      | Some c \<Rightarrow>
          (case stdout c of
             None \<Rightarrow> w
           | Some ls \<Rightarrow> w\<lparr>l_procs := (l_procs w)(pr \<mapsto> c\<lparr>stdout := Some (remove1 p ls)\<rparr>)\<rparr>))"

text \<open>
  The \<open>dataHandler\<close> of the call with promise \<open>p\<close> on process \<open>pr\<close>. It compares no
  identifier: whatever the chunk answers, it settles \<open>p\<close>. When \<^verbatim>\<open>JSON.parse\<close>
  throws, the handler stays registered.
\<close>

definition dataHandler :: "pid \<Rightarrow> promise \<Rightarrow> jstring \<Rightarrow> legacy_world \<Rightarrow> legacy_world" where
  "dataHandler pr p data w =
     (let failed = (\<lambda>e. legacy_settle p
            (Reject (Thrown (JStr (str ''Failed to parse response: '' @ error_name e)))))
      in case JSON_parse data of
           None \<Rightarrow> failed SyntaxError w
         | Some response \<Rightarrow>
             (let w1 = removeListener pr p w;
                  malformed = legacy_settle p
                    (Reject (Thrown (JStr (str ''No result or error in response'')))) w1
              in case get_prop response (str ''result'') of
                   Inl e \<Rightarrow> failed e w1
                 | Inr (Some result) \<Rightarrow> legacy_settle p (Resolve result) w1
                 | Inr None \<Rightarrow>
                     (case get_prop response (str ''error'') of
                        Inl e \<Rightarrow> failed e w1
                      | Inr None \<Rightarrow> malformed
                      | Inr (Some err) \<Rightarrow>
                          (if truthy err then legacy_settle p (Reject (Thrown err)) w1
                           else malformed))))"

definition legacy_sendToPython ::
  "jstring \<Rightarrow> json \<Rightarrow> nat \<Rightarrow> spawn_env \<Rightarrow> legacy_world \<Rightarrow> promise \<times> legacy_world" where
  "legacy_sendToPython method params now env w =
     (let p = l_next_promise w;
          (pr, w1) = legacy_startPythonProcess env (w\<lparr>l_next_promise := Suc p\<rparr>);
          rq = \<lparr>rq_jsonrpc = str ''2.0'', rq_id = now, rq_method = method, rq_params = params\<rparr>
      in case l_procs w1 pr of
           None \<Rightarrow> (p, w1)
         | Some c \<Rightarrow>
             (case stdout c of
                None \<Rightarrow>
                  (p, legacy_settle p
                        (Reject (Thrown (JStr (str ''Python process stdout not available'')))) w1)
              | Some ls \<Rightarrow>
                  (let w2 = w1\<lparr>l_procs := (l_procs w1)(pr \<mapsto> c\<lparr>stdout := Some (ls @ [p])\<rparr>)\<rparr>
                   in case stdin c of
                        Some s \<Rightarrow> (p, w2\<lparr>l_written := l_written w2 @ [(pr, rq)]\<rparr>)
                      | None \<Rightarrow>
                          (p, legacy_settle p
                                (Reject (Thrown (JStr (str ''Python process stdin not available''))))
                                w2))))"

text \<open>
  A chunk on the worker's \<open>stdout\<close>: every handler registered when the event
  is emitted is called with it, in order of registration.
\<close>

definition legacy_stdout_data :: "pid \<Rightarrow> jstring \<Rightarrow> legacy_world \<Rightarrow> legacy_world" where
  "legacy_stdout_data pr data w =
     (case Option.bind (l_procs w pr) stdout of
        None \<Rightarrow> w
      | Some ls \<Rightarrow> fold (\<lambda>p. dataHandler pr p data) ls w)"

section \<open>Example states\<close>

text \<open>
  A spawned worker with both streams, and the state after one call of
  \<open>sendToPython\<close> from the initial state: process \<open>0\<close>, manager \<open>0\<close>, one pending
  request with identifier \<open>1\<close>, promise \<open>0\<close> and timeout \<open>0\<close>.
\<close>

definition env_ok :: spawn_env where
  "env_ok = \<lparr>env_stdin = Some Open, env_stdout = True\<rparr>"

definition one_pending :: world where
  "one_pending =
     snd (sendToPython (str ''say_hello'') (JObj [(str ''name'', JStr (str ''x''))]) env_ok init)"

text \<open>Chunks that a worker may write.\<close>

definition reply_ok_2 :: jstring where
  \<open>reply_ok_2 = str ''{"jsonrpc":"2.0","id":2,"result":"ok"}''\<close>

text \<open>
  Replies to request \<open>1\<close>: one whose error is a numeral too small for a double
  other than \<open>0\<close>, one whose identifier is a numeral that no double
  distinguishes from \<open>1\<close>, and one whose result holds the escape of a code unit
  above \<open>0xFF\<close>, as the worker's \<^verbatim>\<open>json.dumps\<close> writes a character outside ASCII.
\<close>

definition reply_tiny_error :: jstring where
  \<open>reply_tiny_error = str ''{"jsonrpc":"2.0","id":1,"error":1e-400}''\<close>

definition reply_rounded_id :: jstring where
  \<open>reply_rounded_id = str ''{"jsonrpc":"2.0","id":1.00000000000000000001,"result":"ok"}''\<close>

definition reply_escaped :: jstring where
  \<open>reply_escaped = str ''{"jsonrpc":"2.0","id":1,"result":"'' @ 0x5C # str ''u2603"}''\<close>

text \<open>Three calls of \<open>sendToPython\<close> from the initial state, and a reply to each.\<close>

definition reply_a_1 :: jstring where
  \<open>reply_a_1 = str ''{"jsonrpc":"2.0","id":1,"result":"a"}''\<close>

definition reply_b_2 :: jstring where
  \<open>reply_b_2 = str ''{"jsonrpc":"2.0","id":2,"result":"b"}''\<close>

definition reply_c_3 :: jstring where
  \<open>reply_c_3 = str ''{"jsonrpc":"2.0","id":3,"result":"c"}''\<close>

definition three_calls :: "event list" where
  "three_calls =
     [SendToPython (str ''say_hello'') (JObj []) env_ok,
      SendToPython (str ''process_path'') (JObj []) env_ok,
      SendToPython (str ''say_hello'') (JObj []) env_ok]"

text \<open>
  An envelope split across two deliveries, the same envelope in one delivery,
  and two complete envelopes in one delivery.
\<close>

definition split_head :: jstring where
  \<open>split_head = str ''{"jsonrpc":"2''\<close>

definition split_tail :: jstring where
  \<open>split_tail = str ''.0","id":1,"result":"ok"}\<newline>''\<close>

definition two_lines :: jstring where
  \<open>two_lines =
     (str ''{"jsonrpc":"2.0","id":1,"result":"a"}\<newline>{"jsonrpc":"2.0","id":2,"result":"b"}\<newline>'')\<close>

text \<open>
  The state after one call and the loss of the pipe to the worker's \<open>stdin\<close>,
  and a worker spawned without a \<open>stdin\<close>.
\<close>

definition broken_pipe :: world where
  "broken_pipe =
     run [SendToPython (str ''say_hello'') (JObj [(str ''name'', JStr (str ''x''))]) env_ok,
          StdinBreaks 0] init"

definition env_no_stdin :: spawn_env where
  "env_no_stdin = \<lparr>env_stdin = None, env_stdout = True\<rparr>"

text \<open>A call, the exit of the worker, and a second call.\<close>

definition exit_then_call :: "event list" where
  "exit_then_call =
     [SendToPython (str ''say_hello'') (JObj []) env_ok, ProcessExit 0,
      SendToPython (str ''process_path'') (JObj []) env_ok]"

text \<open>
  The command-panel version: a reply to a call made at clock reading
  \<open>1699999999000\<close>, a reply to a call made at \<open>1700000000000\<close>, and a worker
  that has answered the first of these calls and is idle.
\<close>

definition reply_hello_0 :: jstring where
  \<open>reply_hello_0 = str ''{"jsonrpc":"2.0","id":1699999999000,"result":"Hello, 0!"}''\<close>

definition reply_hello_a :: jstring where
  \<open>reply_hello_a = str ''{"jsonrpc":"2.0","id":1700000000000,"result":"Hello, a!"}''\<close>

definition legacy_idle :: legacy_world where
  "legacy_idle =
     legacy_stdout_data 0 reply_hello_0
       (snd (legacy_sendToPython (str ''say_hello'')
             (JObj [(str ''name'', JStr (str ''0''))]) 1699999999000
          env_ok legacy_init))"

section \<open>Rounding and literals\<close>

text \<open>
  \<open>binade\<close> is the binary exponent, and a finite \<open>to_double neg x\<close> is a multiple
  of the spacing of the doubles at \<open>x\<close>, within half of that spacing of \<open>x\<close>.
\<close>

lemma bitlen_rat_bounds:
  assumes "0 < a"
  shows "(2::rat) powi (bitlen a - 1) \<le> of_int a" "of_int a < (2::rat) powi (bitlen a)"
proof -
  have b: "2 ^ nat (bitlen a - 1) \<le> a" "a < 2 ^ nat (bitlen a)"
    using bitlen_bounds [OF assms] by simp_all
  have pos: "0 < bitlen a"
    using assms bitlen_eq_zero_iff [of a] bitlen_nonneg [of a] by linarith
  have "(2::rat) powi (bitlen a - 1) = of_int (2 ^ nat (bitlen a - 1))"
    using pos by (simp add: power_int_def)
  also have "\<dots> \<le> of_int a" using b(1) by (simp only: of_int_le_iff)
  finally show "(2::rat) powi (bitlen a - 1) \<le> of_int a" .
  have "of_int a < (of_int (2 ^ nat (bitlen a)) :: rat)"
    using b(2) by (simp only: of_int_less_iff)
  also have "\<dots> = 2 powi (bitlen a)"
    using pos by (simp add: power_int_def)
  finally show "of_int a < (2::rat) powi (bitlen a)" .
qed

lemma binade_bounds:
  assumes "0 < x"
  shows "2 powi (binade x) \<le> x" "x < 2 powi (binade x + 1)"
proof -
  obtain a b where q: "quotient_of x = (a, b)" by (cases "quotient_of x")
  have b: "0 < b" using quotient_of_denom_pos [OF q] .
  have x: "x = of_int a / of_int b" using quotient_of_div [OF q] .
  have a: "0 < a"
    using assms b unfolding x by (simp add: zero_less_divide_iff)
  note A = bitlen_rat_bounds [OF a]
  note B = bitlen_rat_bounds [OF b]
  let ?d = "bitlen a - bitlen b"
  have up: "x < 2 powi (?d + 1)"
  proof -
    have "x < 2 powi (bitlen a) / 2 powi (bitlen b - 1)"
      unfolding x using A(2) B(1) a b
      by (intro frac_less) simp_all
    also have "\<dots> = 2 powi (?d + 1)"
      by (simp add: power_int_diff power_int_add)
    finally show ?thesis .
  qed
  have low: "2 powi (?d - 1) \<le> x"
  proof -
    have "2 powi (?d - 1) = 2 powi (bitlen a - 1) / (2::rat) powi (bitlen b)"
      by (simp add: power_int_diff)
    also have "\<dots> \<le> x"
      unfolding x using A(1) B(2) a b
      by (intro frac_le) simp_all
    finally show ?thesis .
  qed
  show "2 powi (binade x) \<le> x"
    using low by (simp add: binade_def q Let_def)
  show "x < 2 powi (binade x + 1)"
    using up by (auto simp: binade_def q Let_def not_le)
qed

lemma round_half_even_near: "\<bar>of_int (round_half_even y) - y\<bar> \<le> 1 / 2"
proof -
  have "of_int \<lfloor>y\<rfloor> \<le> y" "y < of_int \<lfloor>y\<rfloor> + 1"
    by linarith+
  then show ?thesis
    by (auto simp: round_half_even_def Let_def abs_le_iff)
qed

lemma to_double_nearest:
  assumes "0 \<le> x" and "to_double neg x = Finite r"
  shows "\<exists>n. \<bar>r\<bar> = of_int n * 2 powi (max (binade x) (- 1022) - 52) \<and>
     \<bar>\<bar>r\<bar> - x\<bar> \<le> 2 powi (max (binade x) (- 1022) - 52) / 2"
proof -
  let ?s = "max (binade x) (- 1022) - 52"
  let ?n = "round_half_even (x / 2 powi ?s)"
  let ?r = "of_int ?n * (2::rat) powi ?s"
  have pos: "0 < (2::rat) powi ?s" by simp
  have "0 \<le> x / 2 powi ?s"
    using assms(1) pos by simp
  then have "- 1 < (of_int ?n :: rat)"
    using round_half_even_near [of "x / 2 powi ?s"] by linarith
  then have "0 \<le> ?n" by linarith
  then have r0: "0 \<le> ?r" by simp
  have scale: "\<bar>k * p - x\<bar> = \<bar>k - x / p\<bar> * p" if "0 < p" for k p :: rat
  proof -
    have "\<bar>k - x / p\<bar> * p = \<bar>(k - x / p) * p\<bar>"
      using that by (simp add: abs_mult)
    also have "(k - x / p) * p = k * p - x"
      using that by (simp add: field_simps)
    finally show ?thesis by simp
  qed
  have "\<bar>?r - x\<bar> = \<bar>of_int ?n - x / 2 powi ?s\<bar> * 2 powi ?s"
    by (rule scale [OF pos])
  also have "\<dots> \<le> 1 / 2 * 2 powi ?s"
    using round_half_even_near [of "x / 2 powi ?s"] pos
    by (intro mult_right_mono) simp_all
  finally have near: "\<bar>?r - x\<bar> \<le> 2 powi ?s / 2" by simp
  have "\<bar>r\<bar> = ?r"
    using assms(2) r0 by (auto simp: to_double_def Let_def split: if_splits)
  then show ?thesis
    using near by auto
qed

lemma round_half_even_int: "round_half_even (of_int k) = k"
  by (simp add: round_half_even_def)

lemma binade_nat:
  assumes "0 < n"
  shows "binade (of_nat n) = bitlen (int n) - 1"
proof -
  have b: "2 ^ nat (bitlen (int n) - 1) \<le> int n"
    using bitlen_bounds [of "int n"] assms by simp
  have pos: "0 < bitlen (int n)"
    using assms bitlen_eq_zero_iff [of "int n"] bitlen_nonneg [of "int n"] by linarith
  have "(2::rat) powi (bitlen (int n) - 1) = 2 ^ nat (bitlen (int n) - 1)"
    using pos by (simp add: power_int_def)
  also have "\<dots> = of_int (2 ^ nat (bitlen (int n) - 1))" by simp
  also have "\<dots> \<le> of_int (int n)" using b by (simp only: of_int_le_iff)
  finally have "(2::rat) powi (bitlen (int n) - 1) \<le> of_nat n" by simp
  moreover have "bitlen 1 = 1"
    by (subst compute_bitlen) (simp add: bitlen_zero)
  ultimately show ?thesis
    by (simp add: binade_def quotient_of_rat_of_nat Let_def)
qed

text \<open>A natural number below \<open>2 ^ 53\<close> is a double.\<close>

lemma to_double_nat:
  assumes "n < 2 ^ 53"
  shows "to_double neg (of_nat n) =
     (if n = 0 then (if neg then NegZero else Finite 0)
      else Finite (if neg then - of_nat n else of_nat n))"
proof (cases "n = 0")
  case True
  have "round_half_even 0 = 0"
    using round_half_even_int [of 0] by simp
  then show ?thesis
    using True by (simp add: to_double_def Let_def)
next
  case False
  then have pos: "0 < n" by simp
  define e where "e = bitlen (int n) - 1"
  have e0: "0 \<le> e"
    using pos bitlen_eq_zero_iff [of "int n"] bitlen_nonneg [of "int n"]
    unfolding e_def by linarith
  have "bitlen (int n) \<le> 53"
    using assms less_power_nat_iff_bitlen [of n 53] by simp
  then have e52: "e \<le> 52" by (simp add: e_def)
  have s: "max (binade (of_nat n)) (- 1022) - 52 = e - 52"
    using e0 by (simp add: binade_nat [OF pos] e_def)
  have p: "(2::rat) powi (e - 52) = 1 / 2 ^ nat (52 - e)"
    using e52 by (simp add: power_int_def field_simps)
  have q: "rat_of_nat n / 2 powi (e - 52) = of_int (int n * 2 ^ nat (52 - e))"
    by (simp add: p)
  have r: "of_int (round_half_even (rat_of_nat n / 2 powi (e - 52))) * 2 powi (e - 52)
      = rat_of_nat n"
    unfolding q round_half_even_int by (simp add: p)
  have lt: "rat_of_nat n < 2 ^ 1024"
  proof -
    have "n < 2 ^ 1024" using assms by (rule less_le_trans) simp
    then have "rat_of_nat n < rat_of_nat (2 ^ 1024)" by (simp only: of_nat_less_iff)
    then show ?thesis by simp
  qed
  show ?thesis
    unfolding to_double_def Let_def s r using pos lt by simp
qed

lemma to_double_numeral:
  "numeral k < (2::nat) ^ 53 \<Longrightarrow>
   to_double neg (numeral k) = Finite (if neg then - numeral k else numeral k)"
  using to_double_nat [of "numeral k" neg] by simp

lemma to_double_1: "to_double neg 1 = Finite (if neg then - 1 else 1)"
  using to_double_nat [of 1 neg] by simp

lemma to_double_0: "to_double neg 0 = (if neg then NegZero else Finite 0)"
  using to_double_nat [of 0 neg] by simp

text \<open>A magnitude below half of the least positive double rounds to zero.\<close>

lemma round_half_even_small:
  assumes "0 \<le> y" and "y < 1 / 2"
  shows "round_half_even y = 0"
proof -
  have "\<lfloor>y\<rfloor> = 0"
    using assms by (simp add: floor_eq_iff)
  then show ?thesis
    using assms by (simp add: round_half_even_def Let_def)
qed

lemma to_double_tiny:
  assumes "0 \<le> x" and "x < 1 / 2 ^ 1075"
  shows "to_double neg x = (if neg then NegZero else Finite 0)"
proof -
  define s where "s = max (binade x) (- 1022) - 52"
  have s: "- 1074 \<le> s" by (simp add: s_def)
  have "(2::rat) powi (- 1074) \<le> 2 powi s"
    using s by (intro power_int_increasing) simp_all
  then have p: "1 / 2 ^ 1074 \<le> (2::rat) powi s"
    by (simp add: power_int_minus field_simps)
  have pos: "0 < (2::rat) powi s" by simp
  have "x / 2 powi s \<le> x / (1 / 2 ^ 1074)"
    using p assms(1) by (intro divide_left_mono) simp_all
  also have "\<dots> = x * 2 ^ 1074" by simp
  also have "\<dots> < 1 / 2"
    using assms(2) by (simp add: field_simps)
  finally have "x / 2 powi s < 1 / 2" .
  moreover have "0 \<le> x / 2 powi s"
    using assms(1) pos by simp
  ultimately have "round_half_even (x / 2 powi s) = 0"
    by (rule round_half_even_small [rotated])
  then show ?thesis
    by (simp add: to_double_def Let_def s_def [symmetric])
qed

text \<open>Rounding at work: the double nearest to \<open>1 + 10 ^ - 20\<close> is \<open>1\<close>.\<close>

lemma to_double_near_one:
  "to_double False (100000000000000000001 / 100000000000000000000) = Finite 1"
  by code_simp

text \<open>Different literals denote different strings.\<close>

lemma unat_of_char: "unat (of_char c :: code_unit) = of_char c"
proof -
  have "(of_char c :: code_unit) = of_nat (of_char c)"
    by (simp only: of_nat_of_char)
  moreover have "(of_char c :: nat) < 2 ^ 16"
    using nat_of_char_less_256 [of c] by (rule less_le_trans) simp
  ultimately show ?thesis
    by (simp add: unat_of_nat)
qed

lemma of_char_unit_eq [simp]: "((of_char c :: code_unit) = of_char d) = (c = d)"
proof
  assume "(of_char c :: code_unit) = of_char d"
  then have "unat (of_char c :: code_unit) = unat (of_char d :: code_unit)" by simp
  then show "c = d" by (simp add: unat_of_char)
qed simp

lemma str_eq [simp]: "(str a = str b) = (a = b)"
  unfolding str_def by (rule inj_map_eq_map) (simp add: inj_on_def)

lemma str_Nil [simp]: "str [] = []" "(str a = []) = (a = [])" "([] = str a) = (a = [])"
  by (auto simp: str_def)

lemma str_cat: "str a @ str b = str (a @ b)" "str a @ str b @ c = str (a @ b) @ c"
  by (simp_all add: str_def)

section \<open>Evaluation\<close>

lemmas json_eval =
  JSON_parse_def parse_tokens_def pstep_def after_value_def member_name_def
  start_value_def is_ws_def is_digit_def is_numch_def parse_number_def
  parse_fraction_def parse_exponent_def digits_val_def digit_val_def unescape_def
  hex4_def hex_val_def str_def to_double_numeral to_double_1 to_double_0 to_double_tiny
  to_double_near_one

lemmas world_eval =
  run_def init_def sendToPython_def getRequestManager_def manager_invalid_def
  startPythonProcess_def new_PythonRequestManager_def spawn_def proc_killed_def
  sendRequest_def stdout_data_def handleResponse_def handleResponse_try_def
  get_prop_def Map_get_def Map_delete_def number_key_def truthy_def console_add_def
  clearTimeout_def settle_def update_manager_def timer_fires_def timeout_callback_def
  timeout_message_def process_exit_def on_exit_def deactivate_def stdin_breaks_def
  Let_def

lemma one_pending_manager:
  "managers one_pending 0 =
     Some \<lparr>pendingRequests = [1 \<mapsto> \<lparr>id_req = 1, resolve = 0, reject = 0, timeout = 0\<rparr>],
           requestId = 2, process = 0\<rparr>"
  by (simp add: one_pending_def env_ok_def world_eval)

lemma one_pending_settled: "settled one_pending = []"
  by (simp add: one_pending_def env_ok_def world_eval)

section \<open>Inbound dispatch\<close>

lemma found_is_object:
  assumes "get_prop response (str ''id'') = Inr response_id"
    and "Map_get m response_id = Some pr"
  shows "\<exists>ms. response = JObj ms"
  using assms by (cases response) (auto simp: get_prop_def Map_get_def number_key_def)

lemma get_prop_object: "get_prop (JObj ms) k = Inr (map_of (rev ms) k)"
  by (simp add: get_prop_def)

lemma Map_get_delete: "Map_get (Map_delete m v) v = None"
  by (simp add: Map_get_def Map_delete_def split: option.splits)

text \<open>
  The four ways through \<open>handleResponse\<close>: the chunk is no JSON text; it is the
  text \<open>null\<close>, whose \<open>id\<close> cannot be read; its \<open>id\<close> matches no pending
  request; its \<open>id\<close> matches one.
\<close>

lemma handleResponse_unparsed:
  assumes "JSON_parse data = None"
  shows "handleResponse this data w =
     console_add (ConsoleError (str ''Failed to parse Python response:''))
       (console_add (ConsoleLog (str ''Raw Python response:'')) w)"
  using assms by (simp add: handleResponse_def handleResponse_try_def Let_def)

lemma handleResponse_unreadable:
  assumes "JSON_parse data = Some response"
    and "get_prop response (str ''id'') = Inl e"
  shows "handleResponse this data w =
     console_add (ConsoleError (str ''Failed to parse Python response:''))
       (console_add (ConsoleLog (str ''Parsed Python response:''))
         (console_add (ConsoleLog (str ''Raw Python response:'')) w))"
  using assms by (simp add: handleResponse_def handleResponse_try_def Let_def)

lemma handleResponse_try_unmatched:
  assumes "JSON_parse data = Some response"
    and "get_prop response (str ''id'') = Inr response_id"
    and "Option.bind (managers w this) (\<lambda>mgr. Map_get (pendingRequests mgr) response_id) = None"
  shows "handleResponse_try this data w =
     Inr (console_add (ConsoleWarn (str ''Received response for unknown request ID:''))
           (console_add (ConsoleLog (str ''Parsed Python response:''))
             (console_add (ConsoleLog (str ''Raw Python response:'')) w)))"
proof -
  have "Option.bind (managers (console_add b (console_add a w)) this)
          (\<lambda>mgr. Map_get (pendingRequests mgr) response_id) = None" for a b
    using assms(3) by (simp add: console_add_def)
  then show ?thesis
    using assms(1,2) by (simp add: handleResponse_try_def Let_def)
qed

lemma handleResponse_matched:
  assumes parse: "JSON_parse data = Some response"
    and rid: "get_prop response (str ''id'') = Inr response_id"
    and mgr: "managers w this = Some mgr"
    and pend: "Map_get (pendingRequests mgr) response_id = Some pr"
    and gr: "get_prop response (str ''result'') = Inr r"
    and ge: "get_prop response (str ''error'') = Inr e"
  shows "handleResponse this data w =
      settle (case r of Some x \<Rightarrow> resolve pr | None \<Rightarrow> reject pr)
        (case r of
           Some x \<Rightarrow> Resolve x
         | None \<Rightarrow>
             (case e of
                Some y \<Rightarrow>
                  if truthy y then Reject (Thrown y)
                  else Reject (Thrown (JStr (str ''No result or error in response'')))
              | None \<Rightarrow> Reject (Thrown (JStr (str ''No result or error in response'')))))
        (update_manager this
           (\<lambda>mgr. mgr\<lparr>pendingRequests := Map_delete (pendingRequests mgr) response_id\<rparr>)
           (clearTimeout (timeout pr)
             (console_add (ConsoleLog (str ''Parsed Python response:''))
               (console_add (ConsoleLog (str ''Raw Python response:'')) w))))"
proof -
  have look: "Option.bind (managers (console_add b (console_add a w)) this)
                 (\<lambda>mgr. Map_get (pendingRequests mgr) response_id) = Some pr" for a b
    using mgr pend by (simp add: console_add_def)
  show ?thesis
    by (simp add: handleResponse_def handleResponse_try_def Let_def parse rid look gr ge
        split: option.splits)
qed

text \<open>
  C6. When an inbound envelope matches a pending request, \<open>handleResponse\<close>
  clears the request's timeout, deletes it from \<open>pendingRequests\<close> and settles
  it: with the value of \<open>result\<close> when the envelope has a \<open>result\<close> member;
  else with a rejection carrying the value of \<open>error\<close> when that is truthy; else,
  when there is no \<open>error\<close> member or its value is falsy (\<open>0\<close> or \<open>-0\<close>, also
  as the value of a numeral too small for any other double, the empty string,
  \<open>false\<close>, \<open>null\<close>), with the rejection
  \<^verbatim>\<open>'No result or error in response'\<close>. A matching envelope is an object.
\<close>

theorem C6_matching_envelope_settles:
  assumes parse: "JSON_parse data = Some response"
    and rid: "get_prop response (str ''id'') = Inr response_id"
    and mgr: "managers w this = Some mgr"
    and pend: "Map_get (pendingRequests mgr) response_id = Some pr"
  shows "timers (handleResponse this data w) = (timers w)(timeout pr := None) \<and>
     managers (handleResponse this data w) =
       (managers w)(this \<mapsto>
          mgr\<lparr>pendingRequests := Map_delete (pendingRequests mgr) response_id\<rparr>) \<and>
     Map_get (Map_delete (pendingRequests mgr) response_id) response_id = None \<and>
     (\<forall>r. get_prop response (str ''result'') = Inr (Some r) \<longrightarrow>
        settled (handleResponse this data w) = settled w @ [(resolve pr, Resolve r)]) \<and>
     (\<forall>e. get_prop response (str ''result'') = Inr None \<and>
          get_prop response (str ''error'') = Inr (Some e) \<and> truthy e \<longrightarrow>
        settled (handleResponse this data w) = settled w @ [(reject pr, Reject (Thrown e))]) \<and>
     (get_prop response (str ''result'') = Inr None \<and>
      (get_prop response (str ''error'') = Inr None \<or>
       (\<exists>e. get_prop response (str ''error'') = Inr (Some e) \<and> \<not> truthy e)) \<longrightarrow>
        settled (handleResponse this data w) =
          settled w @
            [(reject pr, Reject (Thrown (JStr (str ''No result or error in response''))))]) \<and>
     (\<exists>ms. response = JObj ms)"
proof -
  obtain ms where obj: "response = JObj ms"
    using found_is_object [OF rid pend] by blast
  obtain r e where gr: "get_prop response (str ''result'') = Inr r"
    and ge: "get_prop response (str ''error'') = Inr e"
    by (simp add: obj get_prop_object)
  show ?thesis
    using mgr gr ge obj
    by (auto simp: handleResponse_matched [OF parse rid mgr pend gr ge] Map_get_delete
        console_add_def clearTimeout_def update_manager_def settle_def)
qed

lemma parse_error_zero:
  \<open>JSON_parse (str ''{"jsonrpc":"2.0","id":1,"error":0}'') =
     Some (JObj [(str ''jsonrpc'', JStr (str ''2.0'')), (str ''id'', JNum (Finite 1)),
                 (str ''error'', JNum (Finite 0))])\<close>
  by (simp add: json_eval)

lemma parse_result_null:
  \<open>JSON_parse (str ''{"jsonrpc":"2.0","id":1,"result":null,"error":"ignored"}'') =
     Some (JObj [(str ''jsonrpc'', JStr (str ''2.0'')), (str ''id'', JNum (Finite 1)),
                 (str ''result'', JNull), (str ''error'', JStr (str ''ignored''))])\<close>
  by (simp add: json_eval)

lemma parse_error_object:
  \<open>JSON_parse (str ''{"jsonrpc":"2.0","id":1,"error":{"code":-32601}}'') =
     Some (JObj [(str ''jsonrpc'', JStr (str ''2.0'')), (str ''id'', JNum (Finite 1)),
                 (str ''error'', JObj [(str ''code'', JNum (Finite (- 32601)))])])\<close>
  by (simp add: json_eval)

lemma parse_reply_tiny_error:
  "JSON_parse reply_tiny_error =
     Some (JObj [(str ''jsonrpc'', JStr (str ''2.0'')), (str ''id'', JNum (Finite 1)),
                 (str ''error'', JNum (Finite 0))])"
  by (simp add: reply_tiny_error_def json_eval)

lemma parse_reply_rounded_id:
  "JSON_parse reply_rounded_id =
     Some (JObj [(str ''jsonrpc'', JStr (str ''2.0'')), (str ''id'', JNum (Finite 1)),
                 (str ''result'', JStr (str ''ok''))])"
  by (simp add: reply_rounded_id_def json_eval)

lemma parse_reply_escaped:
  "JSON_parse reply_escaped =
     Some (JObj [(str ''jsonrpc'', JStr (str ''2.0'')), (str ''id'', JNum (Finite 1)),
                 (str ''result'', JStr [0x2603])])"
  by (simp add: reply_escaped_def json_eval)

theorem C6_witness:
  \<open>settled (handleResponse 0 (str ''{"jsonrpc":"2.0","id":1,"error":0}'') one_pending) =
     [(0, Reject (Thrown (JStr (str ''No result or error in response''))))] \<and>
   timers (handleResponse 0 (str ''{"jsonrpc":"2.0","id":1,"error":0}'') one_pending) 0 = None \<and>
   settled (handleResponse 0 (str ''{"jsonrpc":"2.0","id":1,"result":null,"error":"ignored"}'')
              one_pending) = [(0, Resolve JNull)] \<and>
   settled (handleResponse 0 (str ''{"jsonrpc":"2.0","id":1,"error":{"code":-32601}}'')
              one_pending) =
     [(0, Reject (Thrown (JObj [(str ''code'', JNum (Finite (- 32601)))])))] \<and>
   settled (handleResponse 0 reply_tiny_error one_pending) =
     [(0, Reject (Thrown (JStr (str ''No result or error in response''))))] \<and>
   settled (handleResponse 0 reply_rounded_id one_pending) =
     [(0, Resolve (JStr (str ''ok'')))] \<and>
   settled (handleResponse 0 reply_escaped one_pending) = [(0, Resolve (JStr [0x2603]))]\<close>
  using
    C6_matching_envelope_settles [OF parse_error_zero _ one_pending_manager,
      of "Some (JNum (Finite 1))" "\<lparr>id_req = 1, resolve = 0, reject = 0, timeout = 0\<rparr>"]
    C6_matching_envelope_settles [OF parse_result_null _ one_pending_manager,
      of "Some (JNum (Finite 1))" "\<lparr>id_req = 1, resolve = 0, reject = 0, timeout = 0\<rparr>"]
    C6_matching_envelope_settles [OF parse_error_object _ one_pending_manager,
      of "Some (JNum (Finite 1))" "\<lparr>id_req = 1, resolve = 0, reject = 0, timeout = 0\<rparr>"]
    C6_matching_envelope_settles [OF parse_reply_tiny_error _ one_pending_manager,
      of "Some (JNum (Finite 1))" "\<lparr>id_req = 1, resolve = 0, reject = 0, timeout = 0\<rparr>"]
    C6_matching_envelope_settles [OF parse_reply_rounded_id _ one_pending_manager,
      of "Some (JNum (Finite 1))" "\<lparr>id_req = 1, resolve = 0, reject = 0, timeout = 0\<rparr>"]
    C6_matching_envelope_settles [OF parse_reply_escaped _ one_pending_manager,
      of "Some (JNum (Finite 1))" "\<lparr>id_req = 1, resolve = 0, reject = 0, timeout = 0\<rparr>"]
  by (simp add: get_prop_def Map_get_def number_key_def truthy_def one_pending_settled)

section \<open>Reachable states\<close>

lemma outcomes_append:
  "settled w' = settled w @ [(q, out)] \<Longrightarrow>
   outcomes w' p = outcomes w p @ (if q = p then [out] else [])"
  by (simp add: outcomes_def)

lemma outcomes_same: "settled w' = settled w \<Longrightarrow> outcomes w' p = outcomes w p"
  by (simp add: outcomes_def)

lemma timers_ok_settle_clear:
  assumes inv: "timers_ok w" "pending_ok w"
    and mgr: "managers w m = Some mgr" and ent: "pendingRequests mgr i = Some e"
    and t: "timers w' = (timers w)(timeout e := None)"
    and ms: "managers w' = (managers w)(m \<mapsto> mgr\<lparr>pendingRequests := (pendingRequests mgr)(i := None)\<rparr>)"
    and st: "settled w' = settled w @ [(resolve e, out)]"
    and nt: "next_timer w' = next_timer w"
  shows "timers_ok w'"
  unfolding timers_ok_def
proof (intro allI impI)
  fix h cb
  assume a: "timers w' h = Some cb"
  then have ne: "h \<noteq> timeout e" and old: "timers w h = Some cb"
    by (auto simp: t split: if_splits)
  from inv(1) old obtain mgr0 e0 where
    h: "h < next_timer w" "cb_reject cb = h" "outcomes w h = []"
    and m0: "managers w (cb_this cb) = Some mgr0"
    and e0: "pendingRequests mgr0 (cb_id cb) = Some e0" "timeout e0 = h"
    unfolding timers_ok_def by blast
  from inv(2) mgr ent have re: "resolve e = timeout e"
    unfolding pending_ok_def by blast
  have out: "outcomes w' h = []"
    using outcomes_append [OF st, of h] h(3) ne re by simp
  have "\<exists>mgr1 e1. managers w' (cb_this cb) = Some mgr1 \<and>
          pendingRequests mgr1 (cb_id cb) = Some e1 \<and> timeout e1 = h"
  proof (cases "cb_this cb = m")
    case True
    then have "mgr0 = mgr" using m0 mgr by simp
    then have "cb_id cb \<noteq> i" using e0 ent ne by auto
    then show ?thesis using True \<open>mgr0 = mgr\<close> e0 by (simp add: ms)
  next
    case False
    then show ?thesis using m0 e0 by (simp add: ms)
  qed
  then show "h < next_timer w' \<and> cb_reject cb = h \<and> outcomes w' h = [] \<and>
        (\<exists>mgr e. managers w' (cb_this cb) = Some mgr \<and>
           pendingRequests mgr (cb_id cb) = Some e \<and> timeout e = h)"
    using h out nt by simp
qed

lemma pending_ok_settle_clear:
  assumes inv: "pending_ok w"
    and mgr: "managers w m = Some mgr" and ent: "pendingRequests mgr i = Some e"
    and t: "timers w' = (timers w)(timeout e := None)"
    and ms: "managers w' = (managers w)(m \<mapsto> mgr\<lparr>pendingRequests := (pendingRequests mgr)(i := None)\<rparr>)"
  shows "pending_ok w'"
  unfolding pending_ok_def
proof (intro allI impI)
  fix m0 mgr0 i0 e0
  assume a: "managers w' m0 = Some mgr0" "pendingRequests mgr0 i0 = Some e0"
  obtain mgr1 where m1: "managers w m0 = Some mgr1" "pendingRequests mgr1 i0 = Some e0"
    "requestId mgr1 = requestId mgr0" and ne: "\<not> (m0 = m \<and> i0 = i)"
    using a mgr by (cases "m0 = m") (auto simp: ms split: if_splits)
  from inv m1 obtain cb where
    p: "i0 < requestId mgr1" "id_req e0 = i0" "reject e0 = resolve e0" "resolve e0 = timeout e0"
    and cb: "timers w (timeout e0) = Some cb" "cb_this cb = m0" "cb_id cb = i0"
    unfolding pending_ok_def by blast
  from inv mgr ent obtain cb' where
    cb': "timers w (timeout e) = Some cb'" "cb_this cb' = m" "cb_id cb' = i"
    unfolding pending_ok_def by blast
  have "timeout e0 \<noteq> timeout e"
    using cb cb' ne by auto
  then have "timers w' (timeout e0) = Some cb" using cb(1) by (simp add: t)
  then show "i0 < requestId mgr0 \<and> id_req e0 = i0 \<and> reject e0 = resolve e0 \<and>
       resolve e0 = timeout e0 \<and>
       (\<exists>cb. timers w' (timeout e0) = Some cb \<and> cb_this cb = m0 \<and> cb_id cb = i0)"
    using p cb m1(3) by auto
qed

lemma promises_ok_settle_clear:
  assumes inv: "timers_ok w" "pending_ok w" "promises_ok w"
    and mgr: "managers w m = Some mgr" and ent: "pendingRequests mgr i = Some e"
    and t: "timers w' = (timers w)(timeout e := None)"
    and st: "settled w' = settled w @ [(resolve e, out)]"
    and nt: "next_timer w' = next_timer w" and np: "next_promise w' = next_promise w"
  shows "promises_ok w'"
proof -
  from inv(2) mgr ent obtain cb where
    re: "resolve e = timeout e" and cb: "timers w (timeout e) = Some cb"
    unfolding pending_ok_def by blast
  from inv(1) cb have lt: "timeout e < next_timer w" and un: "outcomes w (timeout e) = []"
    unfolding timers_ok_def by blast+
  have eq: "next_promise w = next_timer w"
    using inv(3) unfolding promises_ok_def by blast
  have o: "outcomes w' p = outcomes w p @ (if timeout e = p then [out] else [])" for p
    using outcomes_append [OF st, of p] re by simp
  show ?thesis
    unfolding promises_ok_def
  proof (intro conjI allI impI)
    show "next_promise w' = next_timer w'" using eq nt np by simp
  next
    fix p assume "p < next_promise w'"
    then have "p < next_promise w" using np by simp
    then have a: "length (outcomes w p) \<le> 1" "outcomes w p = [] \<longrightarrow> timers w p \<noteq> None"
      using inv(3) unfolding promises_ok_def by blast+
    show "length (outcomes w' p) \<le> 1"
      using a(1) un by (cases "timeout e = p") (auto simp: o)
    show "timers w' p \<noteq> None" if "outcomes w' p = []"
      using that a(2) by (cases "timeout e = p") (auto simp: o t)
  next
    fix p assume "next_promise w' \<le> p"
    then have "next_promise w \<le> p" using np by simp
    then have "outcomes w p = []" "timeout e \<noteq> p"
      using inv(3) lt eq unfolding promises_ok_def by auto
    then show "outcomes w' p = []" by (simp add: o)
  qed
qed

lemma heap_ok_same_dom:
  assumes "heap_ok w"
    and "\<And>m. (managers w' m = None) = (managers w m = None)"
    and "\<And>pr. (procs w' pr = None) = (procs w pr = None)"
    and "next_mref w' = next_mref w" "next_pid w' = next_pid w"
    and "requestManager w' = requestManager w \<or> requestManager w' = None"
    and "pythonProcess w' = pythonProcess w \<or> pythonProcess w' = None"
  shows "heap_ok w'"
  using assms unfolding heap_ok_def by (metis option.distinct(1))


lemma Map_get_Some:
  "Map_get m v = Some x \<Longrightarrow> \<exists>k. number_key v = Some k \<and> m k = Some x \<and> Map_delete m v = m(k := None)"
  by (auto simp: Map_get_def Map_delete_def split: option.splits)

lemma handleResponse_effect:
  "(\<exists>c. handleResponse this data w = w\<lparr>console := c\<rparr>) \<or>
   (\<exists>c mgr k pr q out.
      managers w this = Some mgr \<and> pendingRequests mgr k = Some pr \<and>
      (q = resolve pr \<or> q = reject pr) \<and>
      handleResponse this data w =
        w\<lparr>console := c, timers := (timers w)(timeout pr := None),
          managers := (managers w)(this \<mapsto>
            mgr\<lparr>pendingRequests := (pendingRequests mgr)(k := None)\<rparr>),
          settled := settled w @ [(q, out)]\<rparr>)"
proof (cases "JSON_parse data")
  case None
  then show ?thesis
    by (auto simp: handleResponse_unparsed console_add_def)
next
  case (Some response)
  show ?thesis
  proof (cases "get_prop response (str ''id'')")
    case (Inl e)
    then show ?thesis
      using Some by (auto simp: handleResponse_unreadable console_add_def)
  next
    case (Inr response_id)
    show ?thesis
    proof (cases "Option.bind (managers w this) (\<lambda>mgr. Map_get (pendingRequests mgr) response_id)")
      case None
      then show ?thesis
        using Some Inr
        by (auto simp: handleResponse_def handleResponse_try_unmatched console_add_def)
    next
      case found: (Some pr)
      then obtain mgr where mgr: "managers w this = Some mgr"
        and pend: "Map_get (pendingRequests mgr) response_id = Some pr"
        by (auto simp: bind_eq_Some_conv)
      obtain k where k: "number_key response_id = Some k" "pendingRequests mgr k = Some pr"
        "Map_delete (pendingRequests mgr) response_id = (pendingRequests mgr)(k := None)"
        using Map_get_Some [OF pend] by blast
      obtain ms where obj: "response = JObj ms"
        using found_is_object [OF Inr pend] by blast
      obtain r e where gr: "get_prop response (str ''result'') = Inr r"
        and ge: "get_prop response (str ''error'') = Inr e"
        by (simp add: obj get_prop_object)
      let ?q = "case r of Some x \<Rightarrow> resolve pr | None \<Rightarrow> reject pr"
      have "?q = resolve pr \<or> ?q = reject pr"
        by (cases r) auto
      moreover have "handleResponse this data w =
        w\<lparr>console := console w @ [ConsoleLog (str ''Raw Python response:''),
                      ConsoleLog (str ''Parsed Python response:'')],
          timers := (timers w)(timeout pr := None),
          managers := (managers w)(this \<mapsto>
            mgr\<lparr>pendingRequests := (pendingRequests mgr)(k := None)\<rparr>),
          settled := settled w @ [(?q,
            case r of
              None \<Rightarrow>
                (case e of
                   None \<Rightarrow> Reject (Thrown (JStr (str ''No result or error in response'')))
                 | Some y \<Rightarrow>
                     if truthy y then Reject (Thrown y)
                     else Reject (Thrown (JStr (str ''No result or error in response''))))
            | Some x \<Rightarrow> Resolve x)]\<rparr>"
        using mgr
        by (simp add: handleResponse_matched [OF Some Inr mgr pend gr ge] k(3)
            console_add_def clearTimeout_def update_manager_def settle_def)
      ultimately show ?thesis
        using mgr k(2) by blast
    qed
  qed
qed


lemma inv_settle_clear:
  assumes inv: "inv w"
    and mgr: "managers w m = Some mgr" and ent: "pendingRequests mgr i = Some e"
    and q: "q = resolve e \<or> q = reject e"
  shows "inv (w\<lparr>console := c, timers := (timers w)(timeout e := None),
            managers := (managers w)(m \<mapsto>
              mgr\<lparr>pendingRequests := (pendingRequests mgr)(i := None)\<rparr>),
            settled := settled w @ [(q, out)]\<rparr>)"
    (is "inv ?w'")
proof -
  from inv have i: "timers_ok w" "pending_ok w" "promises_ok w" "heap_ok w"
    by (simp_all add: inv_def)
  have "reject e = resolve e"
    using i(2) mgr ent unfolding pending_ok_def by blast
  then have q': "q = resolve e" using q by auto
  have "timers_ok ?w'"
    by (rule timers_ok_settle_clear [OF i(1,2) mgr ent, where out = out]) (simp_all add: q')
  moreover have "pending_ok ?w'"
    by (rule pending_ok_settle_clear [OF i(2) mgr ent]) simp_all
  moreover have "promises_ok ?w'"
    by (rule promises_ok_settle_clear [OF i(1,2,3) mgr ent, where out = out]) (simp_all add: q')
  moreover have "heap_ok ?w'"
    by (rule heap_ok_same_dom [OF i(4)]) (use mgr in \<open>auto split: if_splits\<close>)
  ultimately show ?thesis by (simp add: inv_def)
qed

lemma inv_console: "inv (w\<lparr>console := c\<rparr>) = inv w"
  by (simp add: inv_def timers_ok_def pending_ok_def promises_ok_def heap_ok_def outcomes_def)

lemma inv_console_add: "inv (console_add e w) = inv w"
  by (simp add: console_add_def inv_console)

lemma inv_handleResponse: "inv w \<Longrightarrow> inv (handleResponse this data w)"
  using handleResponse_effect [of this data w]
  by (auto simp: inv_console intro: inv_settle_clear)

lemma inv_stdout_data: "inv w \<Longrightarrow> inv (stdout_data pr data w)"
proof -
  have "inv w \<Longrightarrow> inv (fold (\<lambda>this. handleResponse this data) ls w)" for ls
    by (induction ls arbitrary: w) (simp_all add: inv_handleResponse)
  then show "inv w \<Longrightarrow> inv (stdout_data pr data w)"
    by (simp add: stdout_data_def split: option.splits)
qed

lemma timer_fires_effect:
  assumes "timers w h = Some cb" and "managers w (cb_this cb) = Some mgr"
  shows "timer_fires h w =
     w\<lparr>console := console w @
          [ConsoleError (timeout_message (cb_id cb) (cb_method cb) (cb_timeoutMs cb))],
       timers := (timers w)(h := None),
       managers := (managers w)(cb_this cb \<mapsto>
         mgr\<lparr>pendingRequests := (pendingRequests mgr)(cb_id cb := None)\<rparr>),
       settled := settled w @
         [(cb_reject cb,
           Reject (ErrorObject (timeout_message (cb_id cb) (cb_method cb) (cb_timeoutMs cb))))]\<rparr>"
  using assms
  by (simp add: timer_fires_def timeout_callback_def Let_def update_manager_def
      console_add_def settle_def)

lemma inv_timer_fires: "inv w \<Longrightarrow> inv (timer_fires h w)"
proof (cases "timers w h")
  case None
  then show "inv w \<Longrightarrow> inv (timer_fires h w)" by (simp add: timer_fires_def)
next
  case (Some cb)
  assume inv: "inv w"
  then obtain mgr e where
    m: "managers w (cb_this cb) = Some mgr" "pendingRequests mgr (cb_id cb) = Some e"
      "timeout e = h" and r: "cb_reject cb = h"
    using Some unfolding inv_def timers_ok_def by blast
  have "resolve e = timeout e"
    using inv m unfolding inv_def pending_ok_def by blast
  then have "cb_reject cb = resolve e \<or> cb_reject cb = reject e"
    using r m(3) by simp
  from inv_settle_clear [OF inv m(1,2) this]
  show "inv (timer_fires h w)"
    by (simp add: timer_fires_effect [OF Some m(1)] m(3))
qed


lemma sendRequest_none:
  "managers w this = None \<Longrightarrow> sendRequest this method params timeoutMs w = (next_promise w, w)"
  by (simp add: sendRequest_def)

lemma sendRequest_written:
  assumes "managers w this = Some mgr"
    and "Option.bind (procs w (process mgr)) stdin = Some s"
  shows "sendRequest this method params timeoutMs w =
     (next_promise w,
      w\<lparr>next_promise := Suc (next_promise w), next_timer := Suc (next_timer w),
        timers := (timers w)(next_timer w \<mapsto>
          \<lparr>cb_this = this, cb_id = requestId mgr, cb_method = method,
           cb_timeoutMs = timeoutMs, cb_reject = next_promise w\<rparr>),
        managers := (managers w)(this \<mapsto>
          mgr\<lparr>requestId := requestId mgr + 1,
              pendingRequests := (pendingRequests mgr)(requestId mgr \<mapsto>
                \<lparr>id_req = requestId mgr, resolve = next_promise w,
                 reject = next_promise w, timeout = next_timer w\<rparr>)\<rparr>),
        console := console w @ [ConsoleLog (str ''Sending Python request:'')],
        written := written w @
          [(process mgr, \<lparr>rq_jsonrpc = str ''2.0'', rq_id = requestId mgr,
                          rq_method = method, rq_params = params\<rparr>)]\<rparr>)"
  using assms by (simp add: sendRequest_def Let_def console_add_def)

lemma sendRequest_unavailable:
  assumes "managers w this = Some mgr"
    and "Option.bind (procs w (process mgr)) stdin = None"
  shows "sendRequest this method params timeoutMs w =
     (next_promise w,
      w\<lparr>next_promise := Suc (next_promise w), next_timer := Suc (next_timer w),
        timers := (timers w)(next_timer w := None),
        managers := (managers w)(this \<mapsto>
          mgr\<lparr>requestId := requestId mgr + 1,
              pendingRequests := (pendingRequests mgr)(requestId mgr := None)\<rparr>),
        settled := settled w @
          [(next_promise w, Reject (Thrown (JStr (str ''Python process stdin not available''))))]\<rparr>)"
  using assms
  by (simp add: sendRequest_def Let_def clearTimeout_def update_manager_def settle_def)

lemma inv_sendRequest_written:
  assumes inv: "inv w" and mgr: "managers w this = Some mgr"
  shows "inv (w\<lparr>next_promise := Suc (next_promise w), next_timer := Suc (next_timer w),
        timers := (timers w)(next_timer w \<mapsto>
          \<lparr>cb_this = this, cb_id = requestId mgr, cb_method = method,
           cb_timeoutMs = timeoutMs, cb_reject = next_promise w\<rparr>),
        managers := (managers w)(this \<mapsto>
          mgr\<lparr>requestId := requestId mgr + 1,
              pendingRequests := (pendingRequests mgr)(requestId mgr \<mapsto>
                \<lparr>id_req = requestId mgr, resolve = next_promise w,
                 reject = next_promise w, timeout = next_timer w\<rparr>)\<rparr>),
        console := c, written := wr\<rparr>)"
    (is "inv ?w'")
proof -
  from inv have i: "timers_ok w" "pending_ok w" "promises_ok w" "heap_ok w"
    by (simp_all add: inv_def)
  have eq: "next_promise w = next_timer w"
    and fresh: "\<And>p. next_promise w \<le> p \<Longrightarrow> outcomes w p = []"
    using i(3) unfolding promises_ok_def by blast+
  have o: "outcomes ?w' p = outcomes w p" for p
    by (simp add: outcomes_def)
  have below: "pendingRequests mgr0 i0 = Some e0 \<Longrightarrow> managers w m0 = Some mgr0 \<Longrightarrow>
      i0 < requestId mgr0 \<and> timeout e0 < next_timer w" for m0 mgr0 i0 e0
    using i(1,2) unfolding pending_ok_def timers_ok_def by blast
  have "timers_ok ?w'"
    unfolding timers_ok_def
  proof (intro allI impI)
    fix h cb assume a: "timers ?w' h = Some cb"
    show "h < next_timer ?w' \<and> cb_reject cb = h \<and> outcomes ?w' h = [] \<and>
        (\<exists>mgr e. managers ?w' (cb_this cb) = Some mgr \<and>
           pendingRequests mgr (cb_id cb) = Some e \<and> timeout e = h)"
    proof (cases "h = next_timer w")
      case True
      then show ?thesis using a eq fresh [of h] by (auto simp: outcomes_def)
    next
      case False
      then have old: "timers w h = Some cb" using a by simp
      then obtain mgr0 e0 where
        h: "h < next_timer w" "cb_reject cb = h" "outcomes w h = []"
        and m0: "managers w (cb_this cb) = Some mgr0"
        and e0: "pendingRequests mgr0 (cb_id cb) = Some e0" "timeout e0 = h"
        using i(1) unfolding timers_ok_def by blast
      have "cb_this cb = this \<Longrightarrow> cb_id cb \<noteq> requestId mgr"
        using below [OF e0(1) m0] m0 mgr by auto
      then show ?thesis
        using h m0 e0 mgr o [of h] by auto
    qed
  qed
  moreover have "pending_ok ?w'"
    unfolding pending_ok_def
  proof (intro allI impI)
    fix m0 mgr0 i0 e0
    assume a: "managers ?w' m0 = Some mgr0" "pendingRequests mgr0 i0 = Some e0"
    show "i0 < requestId mgr0 \<and> id_req e0 = i0 \<and> reject e0 = resolve e0 \<and>
       resolve e0 = timeout e0 \<and>
       (\<exists>cb. timers ?w' (timeout e0) = Some cb \<and> cb_this cb = m0 \<and> cb_id cb = i0)"
    proof (cases "m0 = this \<and> i0 = requestId mgr")
      case True
      then show ?thesis using a eq by auto
    next
      case False
      then obtain mgr1 where m1: "managers w m0 = Some mgr1" "pendingRequests mgr1 i0 = Some e0"
        "requestId mgr1 \<le> requestId mgr0"
        using a mgr by (cases "m0 = this") (auto split: if_splits)
      from i(2) m1 obtain cb where
        p: "i0 < requestId mgr1" "id_req e0 = i0" "reject e0 = resolve e0"
           "resolve e0 = timeout e0"
        and cb: "timers w (timeout e0) = Some cb" "cb_this cb = m0" "cb_id cb = i0"
        unfolding pending_ok_def by blast
      have "timeout e0 \<noteq> next_timer w"
        using below [OF m1(2,1)] by simp
      then show ?thesis using p cb m1(3) by auto
    qed
  qed
  moreover have "promises_ok ?w'"
    unfolding promises_ok_def
  proof (intro conjI allI impI)
    show "next_promise ?w' = next_timer ?w'" using eq by simp
  next
    fix p assume lt: "p < next_promise ?w'"
    show "length (outcomes ?w' p) \<le> 1"
      using lt i(3) fresh [of p] o [of p] unfolding promises_ok_def
      by (cases "p < next_promise w") auto
    show "timers ?w' p \<noteq> None" if "outcomes ?w' p = []"
      using that lt i(3) eq o [of p] unfolding promises_ok_def
      by (cases "p < next_promise w") auto
  next
    fix p assume "next_promise ?w' \<le> p"
    then show "outcomes ?w' p = []" using fresh [of p] o [of p] by simp
  qed
  moreover have "heap_ok ?w'"
    by (rule heap_ok_same_dom [OF i(4)]) (use mgr in \<open>auto split: if_splits\<close>)
  ultimately show ?thesis by (simp add: inv_def)
qed

lemma inv_sendRequest_unavailable:
  assumes inv: "inv w" and mgr: "managers w this = Some mgr"
  shows "inv (w\<lparr>next_promise := Suc (next_promise w), next_timer := Suc (next_timer w),
        timers := (timers w)(next_timer w := None),
        managers := (managers w)(this \<mapsto>
          mgr\<lparr>requestId := requestId mgr + 1,
              pendingRequests := (pendingRequests mgr)(requestId mgr := None)\<rparr>),
        settled := settled w @ [(next_promise w, out)]\<rparr>)"
    (is "inv ?w'")
proof -
  from inv have i: "timers_ok w" "pending_ok w" "promises_ok w" "heap_ok w"
    by (simp_all add: inv_def)
  have eq: "next_promise w = next_timer w"
    and fresh: "\<And>p. next_promise w \<le> p \<Longrightarrow> outcomes w p = []"
    using i(3) unfolding promises_ok_def by blast+
  have o: "outcomes ?w' p = outcomes w p @ (if next_promise w = p then [out] else [])" for p
    by (simp add: outcomes_def)
  have tfresh: "timers w (next_timer w) = None"
    using i(1) unfolding timers_ok_def by (cases "timers w (next_timer w)") auto
  have t: "timers ?w' = timers w"
    using tfresh by (auto simp: fun_eq_iff)
  have pfresh: "pendingRequests mgr (requestId mgr) = None"
    using i(2) mgr unfolding pending_ok_def
    by (cases "pendingRequests mgr (requestId mgr)") auto
  have pe: "(pendingRequests mgr)(requestId mgr := None) = pendingRequests mgr"
    using pfresh by (auto simp: fun_eq_iff)
  have ms: "managers ?w' = (managers w)(this \<mapsto> mgr\<lparr>requestId := requestId mgr + 1\<rparr>)"
    by (simp add: pe)
  have "timers_ok ?w'"
    unfolding timers_ok_def
  proof (intro allI impI)
    fix h cb assume a: "timers ?w' h = Some cb"
    then have old: "timers w h = Some cb" by (simp split: if_splits)
    then obtain mgr0 e0 where
      h: "h < next_timer w" "cb_reject cb = h" "outcomes w h = []"
      and m0: "managers w (cb_this cb) = Some mgr0"
      and e0: "pendingRequests mgr0 (cb_id cb) = Some e0" "timeout e0 = h"
      using i(1) unfolding timers_ok_def by blast
    have "\<exists>mgr e. managers ?w' (cb_this cb) = Some mgr \<and>
           pendingRequests mgr (cb_id cb) = Some e \<and> timeout e = h"
      unfolding ms using m0 e0 mgr by (cases "cb_this cb = this") auto
    then show "h < next_timer ?w' \<and> cb_reject cb = h \<and> outcomes ?w' h = [] \<and>
        (\<exists>mgr e. managers ?w' (cb_this cb) = Some mgr \<and>
           pendingRequests mgr (cb_id cb) = Some e \<and> timeout e = h)"
      using h eq o [of h] by simp
  qed
  moreover have "pending_ok ?w'"
    unfolding pending_ok_def
  proof (intro allI impI)
    fix m0 mgr0 i0 e0
    assume a: "managers ?w' m0 = Some mgr0" "pendingRequests mgr0 i0 = Some e0"
    then obtain mgr1 where m1: "managers w m0 = Some mgr1" "pendingRequests mgr1 i0 = Some e0"
        "requestId mgr1 \<le> requestId mgr0"
      unfolding ms using mgr by (cases "m0 = this") (auto split: if_splits)
    from i(2) m1 obtain cb where
        p: "i0 < requestId mgr1" "id_req e0 = i0" "reject e0 = resolve e0"
           "resolve e0 = timeout e0"
        and cb: "timers w (timeout e0) = Some cb" "cb_this cb = m0" "cb_id cb = i0"
        unfolding pending_ok_def by blast
    show "i0 < requestId mgr0 \<and> id_req e0 = i0 \<and> reject e0 = resolve e0 \<and>
       resolve e0 = timeout e0 \<and>
       (\<exists>cb. timers ?w' (timeout e0) = Some cb \<and> cb_this cb = m0 \<and> cb_id cb = i0)"
      using p cb m1(3) tfresh by auto
  qed
  moreover have "promises_ok ?w'"
    unfolding promises_ok_def
  proof (intro conjI allI impI)
    show "next_promise ?w' = next_timer ?w'" using eq by simp
  next
    fix p assume lt: "p < next_promise ?w'"
    show "length (outcomes ?w' p) \<le> 1"
      using lt i(3) fresh [of p] o [of p] unfolding promises_ok_def
      by (cases "p < next_promise w") auto
    show "timers ?w' p \<noteq> None" if "outcomes ?w' p = []"
      using that lt i(3) o [of p] tfresh unfolding promises_ok_def
      by (cases "p < next_promise w") (auto split: if_splits)
  next
    fix p assume "next_promise ?w' \<le> p"
    then show "outcomes ?w' p = []" using fresh [of p] o [of p] by simp
  qed
  moreover have "heap_ok ?w'"
    by (rule heap_ok_same_dom [OF i(4)]) (use mgr in \<open>auto split: if_splits\<close>)
  ultimately show ?thesis by (simp add: inv_def)
qed

lemma inv_sendRequest: "inv w \<Longrightarrow> inv (snd (sendRequest this method params timeoutMs w))"
proof (cases "managers w this")
  case None
  then show "inv w \<Longrightarrow> ?thesis" by (simp add: sendRequest_none)
next
  case (Some mgr)
  assume inv: "inv w"
  show ?thesis
  proof (cases "Option.bind (procs w (process mgr)) stdin")
    case None
    show ?thesis
      using inv_sendRequest_unavailable [OF inv Some]
      by (simp add: sendRequest_unavailable [OF Some None])
  next
    case s: (Some s)
    show ?thesis
      using inv_sendRequest_written [OF inv Some]
      by (simp add: sendRequest_written [OF Some s])
  qed
qed


lemma inv_frame:
  assumes "inv w"
    and "timers w' = timers w" "managers w' = managers w" "settled w' = settled w"
    and "next_timer w' = next_timer w" "next_promise w' = next_promise w"
    and "heap_ok w'"
  shows "inv w'"
  using assms
  by (simp add: inv_def timers_ok_def pending_ok_def promises_ok_def outcomes_def)

lemma inv_on_exit:
  assumes "inv w"
  shows "inv (on_exit w)"
  by (rule inv_frame [OF assms])
    (use assms in \<open>auto simp: on_exit_def console_add_def inv_def heap_ok_def\<close>)

lemma inv_process_exit: "inv w \<Longrightarrow> inv (process_exit pr w)"
  by (simp add: process_exit_def inv_on_exit split: option.splits)

lemma inv_deactivate:
  assumes "inv w"
  shows "inv (deactivate w)"
  by (rule inv_frame [OF assms])
    (use assms in \<open>auto simp: deactivate_def inv_def heap_ok_def split: option.splits\<close>)

lemma inv_stdin_breaks:
  assumes "inv w"
  shows "inv (stdin_breaks pr w)"
  by (rule inv_frame [OF assms])
    (use assms in \<open>auto simp: stdin_breaks_def inv_def heap_ok_def split: option.splits\<close>)

lemma startPythonProcess_effect:
  "startPythonProcess env w = (pr, w') \<Longrightarrow>
     (w' = w \<and> pythonProcess w = Some pr \<and> \<not> proc_killed w pr) \<or>
     (pr = next_pid w \<and>
      w' = w\<lparr>next_pid := Suc (next_pid w), pythonProcess := Some (next_pid w),
              procs := (procs w)(next_pid w \<mapsto> spawn env)\<rparr>)"
  by (auto simp: startPythonProcess_def split: option.splits if_splits)

lemma inv_startPythonProcess:
  assumes "inv w" and "startPythonProcess env w = (pr, w')"
  shows "inv w'" and "procs w' pr \<noteq> None"
proof -
  from startPythonProcess_effect [OF assms(2)]
  show "inv w'"
  proof
    assume "w' = w \<and> pythonProcess w = Some pr \<and> \<not> proc_killed w pr"
    then show ?thesis using assms(1) by simp
  next
    assume a: "pr = next_pid w \<and>
      w' = w\<lparr>next_pid := Suc (next_pid w), pythonProcess := Some (next_pid w),
              procs := (procs w)(next_pid w \<mapsto> spawn env)\<rparr>"
    show ?thesis
      by (rule inv_frame [OF assms(1)])
        (use a assms(1) in \<open>auto simp: inv_def heap_ok_def\<close>)
  qed
  from startPythonProcess_effect [OF assms(2)] assms(1)
  show "procs w' pr \<noteq> None"
    by (auto simp: inv_def heap_ok_def)
qed

lemma new_PythonRequestManager_effect:
  "new_PythonRequestManager pr w = (m, w') \<Longrightarrow>
     m = next_mref w \<and>
     w' = w\<lparr>next_mref := Suc (next_mref w),
            managers := (managers w)(next_mref w \<mapsto>
              \<lparr>pendingRequests = Map.empty, requestId = 1, process = pr\<rparr>),
            procs := procs w'\<rparr> \<and>
     (\<forall>x. (procs w' x = None) = (procs w x = None))"
  by (auto simp: new_PythonRequestManager_def Let_def split: option.splits if_splits)

lemma inv_new_manager:
  assumes inv: "inv w"
    and ps: "\<And>x. (ps x = None) = (procs w x = None)"
  shows "inv (w\<lparr>next_mref := Suc (next_mref w),
               managers := (managers w)(next_mref w \<mapsto>
                 \<lparr>pendingRequests = Map.empty, requestId = 1, process = pr\<rparr>),
               procs := ps, requestManager := Some (next_mref w)\<rparr>)"
    (is "inv ?w'")
proof -
  from inv have i: "timers_ok w" "pending_ok w" "promises_ok w" "heap_ok w"
    by (simp_all add: inv_def)
  have fresh: "managers w (next_mref w) = None"
    using i(4) unfolding heap_ok_def by simp
  have "timers_ok ?w'"
    using i(1) fresh unfolding timers_ok_def outcomes_def by fastforce
  moreover have "pending_ok ?w'"
    using i(2) fresh unfolding pending_ok_def by (auto split: if_splits)
  moreover have "promises_ok ?w'"
    using i(3) unfolding promises_ok_def outcomes_def by simp
  moreover have "heap_ok ?w'"
    using i(4) ps unfolding heap_ok_def by auto
  ultimately show ?thesis by (simp add: inv_def)
qed

lemma inv_clear_manager:
  assumes "inv w"
  shows "inv (w\<lparr>requestManager := None\<rparr>)"
  by (rule inv_frame [OF assms]) (use assms in \<open>auto simp: inv_def heap_ok_def\<close>)

lemma inv_getRequestManager:
  assumes "inv w" and "getRequestManager env w = (m, w')"
  shows "inv w'" and "managers w' m \<noteq> None"
proof -
  show "inv w'"
  proof (cases "manager_invalid w")
    case False
    then show ?thesis using assms by (simp add: getRequestManager_def)
  next
    case True
    obtain pr w1 where sp: "startPythonProcess env (w\<lparr>requestManager := None\<rparr>) = (pr, w1)"
      by (cases "startPythonProcess env (w\<lparr>requestManager := None\<rparr>)")
    obtain m2 w2 where nm: "new_PythonRequestManager pr w1 = (m2, w2)"
      by (cases "new_PythonRequestManager pr w1")
    have w': "w' = w2\<lparr>requestManager := Some m2\<rparr>" "m = m2"
      using assms(2) True sp nm by (auto simp: getRequestManager_def)
    have i1: "inv w1"
      using inv_startPythonProcess(1) [OF inv_clear_manager [OF assms(1)] sp] .
    from new_PythonRequestManager_effect [OF nm] have
      e: "m2 = next_mref w1"
        "w2 = w1\<lparr>next_mref := Suc (next_mref w1),
                   managers := (managers w1)(next_mref w1 \<mapsto>
                     \<lparr>pendingRequests = Map.empty, requestId = 1, process = pr\<rparr>),
                   procs := procs w2\<rparr>"
        "\<And>x. (procs w2 x = None) = (procs w1 x = None)"
      by blast+
    have "w' = w1\<lparr>next_mref := Suc (next_mref w1),
                   managers := (managers w1)(next_mref w1 \<mapsto>
                     \<lparr>pendingRequests = Map.empty, requestId = 1, process = pr\<rparr>),
                   procs := procs w2, requestManager := Some (next_mref w1)\<rparr>"
      using w'(1) e(1) by (subst (asm) e(2)) simp
    then show ?thesis
      using inv_new_manager [OF i1 e(3), of pr] by simp
  qed
  show "managers w' m \<noteq> None"
  proof (cases "manager_invalid w")
    case False
    then show ?thesis
      using assms by (auto simp: getRequestManager_def manager_invalid_def inv_def heap_ok_def)
  next
    case True
    then show ?thesis
      using assms(2)
      by (auto simp: getRequestManager_def new_PythonRequestManager_def Let_def
          split: prod.splits option.splits)
  qed
qed

lemma inv_sendToPython: "inv w \<Longrightarrow> inv (snd (sendToPython method params env w))"
proof -
  assume inv: "inv w"
  obtain m w1 where g: "getRequestManager env w = (m, w1)"
    by (cases "getRequestManager env w")
  show ?thesis
    using inv_sendRequest [OF inv_getRequestManager(1) [OF inv g]]
    by (simp add: sendToPython_def g)
qed

lemma inv_getRequestManager_snd: "inv w \<Longrightarrow> inv (snd (getRequestManager env w))"
  using inv_getRequestManager(1) [of w env] by (cases "getRequestManager env w") simp

lemma inv_step: "inv w \<Longrightarrow> inv (step e w)"
  by (cases e)
    (simp_all add: inv_sendToPython inv_getRequestManager_snd inv_sendRequest inv_stdout_data
      inv_timer_fires inv_process_exit inv_stdin_breaks inv_deactivate)

lemma inv_init: "inv init"
  by (simp add: inv_def timers_ok_def pending_ok_def promises_ok_def heap_ok_def
      outcomes_def init_def)

lemma run_snoc: "run (es @ [e]) w = step e (run es w)"
  by (simp add: run_def)

lemma inv_run: "inv w \<Longrightarrow> inv (run es w)"
  by (induction es rule: rev_induct) (simp_all add: run_snoc inv_step run_def)

lemma inv_reachable: "inv (run es init)"
  by (rule inv_run [OF inv_init])

text \<open>
  \<open>sendToPython\<close> is \<open>getRequestManager\<close> followed by \<open>sendRequest\<close> on the manager
  that it returns, with a duration of \<open>10000\<close>. So every call of \<open>sendRequest\<close> that
  the extension makes, the first call of a manager included, is a call on a
  manager of a state that \<open>run\<close> reaches.
\<close>

lemma sendToPython_steps:
  "sendToPython method params env (run es init) =
     sendRequest (fst (getRequestManager env (run es init))) method params 10000
       (run (es @ [GetRequestManager env]) init)"
  "managers (run (es @ [GetRequestManager env]) init)
     (fst (getRequestManager env (run es init))) \<noteq> None"
proof -
  show "sendToPython method params env (run es init) =
     sendRequest (fst (getRequestManager env (run es init))) method params 10000
       (run (es @ [GetRequestManager env]) init)"
    by (simp add: sendToPython_def run_snoc split: prod.splits)
  show "managers (run (es @ [GetRequestManager env]) init)
     (fst (getRequestManager env (run es init))) \<noteq> None"
    using inv_getRequestManager(2)
      [OF inv_reachable [of es] surjective_pairing [of "getRequestManager env (run es init)"]]
    by (simp add: run_snoc)
qed

section \<open>Exactly-once settlement\<close>

lemma next_promise_handleResponse:
  "next_promise (handleResponse this data w) = next_promise w"
  using handleResponse_effect [of this data w] by auto

lemma next_promise_stdout_data: "next_promise (stdout_data pr data w) = next_promise w"
proof -
  have "next_promise (fold (\<lambda>this. handleResponse this data) ls w) = next_promise w" for ls
    by (induction ls arbitrary: w) (simp_all add: next_promise_handleResponse)
  then show ?thesis
    by (simp add: stdout_data_def split: option.splits)
qed

lemma next_promise_sendRequest:
  "next_promise w \<le> next_promise (snd (sendRequest this method params timeoutMs w))"
  by (simp add: sendRequest_def Let_def console_add_def clearTimeout_def update_manager_def
      settle_def split: option.splits)

lemma next_promise_getRequestManager:
  "next_promise (snd (getRequestManager env w)) = next_promise w"
  by (simp add: getRequestManager_def startPythonProcess_def new_PythonRequestManager_def
      Let_def split: option.splits prod.splits)

lemma next_promise_step: "next_promise w \<le> next_promise (step e w)"
proof (cases e)
  case (SendToPython meth params env)
  obtain m w1 where g: "getRequestManager env w = (m, w1)"
    by (cases "getRequestManager env w")
  have "next_promise w1 = next_promise w"
    using next_promise_getRequestManager [of env w] g by simp
  then show ?thesis
    using next_promise_sendRequest [of w1 m meth params 10000]
    by (simp add: SendToPython sendToPython_def g)
next
  case (TimerFires h)
  then show ?thesis
    by (simp add: timer_fires_def timeout_callback_def Let_def update_manager_def
        console_add_def settle_def split: option.splits)
qed (simp_all add: next_promise_sendRequest next_promise_getRequestManager
      next_promise_stdout_data process_exit_def on_exit_def console_add_def stdin_breaks_def
      deactivate_def split: option.splits)

lemma next_promise_run: "next_promise w \<le> next_promise (run es w)"
proof (induction es rule: rev_induct)
  case Nil
  then show ?case by (simp add: run_def)
next
  case (snoc e es)
  then show ?case
    using next_promise_step [of "run es w" e] by (simp add: run_snoc)
qed

lemma run_append: "run (es @ es') w = run es' (run es w)"
  by (simp add: run_def)

lemma sendRequest_promise:
  "managers w this = Some mgr \<Longrightarrow>
   fst (sendRequest this method params timeoutMs w) = next_promise w \<and>
   next_promise (snd (sendRequest this method params timeoutMs w)) = Suc (next_promise w)"
  by (simp add: sendRequest_def Let_def console_add_def clearTimeout_def update_manager_def
      settle_def split: option.splits)

lemma timers_handleResponse:
  "(timers (handleResponse this data w) h = timers w h \<or>
    timers (handleResponse this data w) h = None) \<and>
   next_timer (handleResponse this data w) = next_timer w"
  using handleResponse_effect [of this data w] by (auto split: if_splits)

lemma timers_stdout_data:
  "(timers (stdout_data pr data w) h = timers w h \<or> timers (stdout_data pr data w) h = None) \<and>
   next_timer (stdout_data pr data w) = next_timer w"
proof -
  have "(timers (fold (\<lambda>this. handleResponse this data) ls w) h = timers w h \<or>
      timers (fold (\<lambda>this. handleResponse this data) ls w) h = None) \<and>
      next_timer (fold (\<lambda>this. handleResponse this data) ls w) = next_timer w" for ls
  proof (induction ls arbitrary: w)
    case Nil
    then show ?case by simp
  next
    case (Cons this ls)
    show ?case
      using Cons.IH [of "handleResponse this data w"] timers_handleResponse [of this data w h]
      by auto
  qed
  then show ?thesis
    by (auto simp: stdout_data_def split: option.splits)
qed

lemma timers_sendRequest:
  assumes "h < next_timer w"
  shows "(timers (snd (sendRequest this method params timeoutMs w)) h = timers w h) \<and>
     next_timer w \<le> next_timer (snd (sendRequest this method params timeoutMs w))"
  using assms
  by (auto simp: sendRequest_def Let_def console_add_def clearTimeout_def update_manager_def
      settle_def split: option.splits)

lemma timers_getRequestManager:
  "timers (snd (getRequestManager env w)) = timers w \<and>
   next_timer (snd (getRequestManager env w)) = next_timer w"
  by (simp add: getRequestManager_def startPythonProcess_def new_PythonRequestManager_def
      Let_def split: option.splits prod.splits)

lemma timers_step:
  assumes lt: "h < next_timer w"
  shows "(timers (step e w) h = timers w h \<or> timers (step e w) h = None) \<and>
     next_timer w \<le> next_timer (step e w)"
proof (cases e)
  case (SendToPython meth params env)
  obtain m w1 where g: "getRequestManager env w = (m, w1)"
    by (cases "getRequestManager env w")
  have "timers w1 = timers w" "next_timer w1 = next_timer w"
    using timers_getRequestManager [of env w] g by simp_all
  then show ?thesis
    using timers_sendRequest [of h w1 m meth params 10000] lt
    by (simp add: SendToPython sendToPython_def g)
next
  case (GetRequestManager env)
  then show ?thesis using timers_getRequestManager [of env w] by simp
next
  case (SendRequest this meth params timeoutMs)
  then show ?thesis using timers_sendRequest [OF lt] by simp
next
  case (StdoutData pr data)
  then show ?thesis using timers_stdout_data [of pr data w h] by simp
next
  case (TimerFires h')
  then show ?thesis
    by (cases "timers w h'")
      (auto simp: timer_fires_def timeout_callback_def Let_def update_manager_def
        console_add_def settle_def split: option.splits)
next
  case (ProcessExit pr)
  then show ?thesis
    by (simp add: process_exit_def on_exit_def console_add_def split: option.splits)
next
  case (StdinBreaks pr)
  then show ?thesis by (simp add: stdin_breaks_def)
next
  case Deactivate
  then show ?thesis by (simp add: deactivate_def split: option.splits)
qed

lemma timers_run:
  assumes "h < next_timer w"
  shows "(timers (run es w) h = timers w h \<or> timers (run es w) h = None) \<and>
     next_timer w \<le> next_timer (run es w)"
proof (induction es rule: rev_induct)
  case Nil
  then show ?case by (simp add: run_def)
next
  case (snoc e es)
  then have "h < next_timer (run es w)"
    using assms by simp
  from timers_step [OF this, of e] snoc show ?case
    by (auto simp: run_snoc)
qed


text \<open>What a step can add to the calls of \<open>resolve\<close> and \<open>reject\<close>.\<close>

lemma reply_outcome_iff:
  "reply_outcome out \<longleftrightarrow>
     (\<exists>r. out = Resolve r) \<or> (\<exists>e. truthy e \<and> out = Reject (Thrown e)) \<or>
     out = Reject (Thrown (JStr (str ''No result or error in response'')))"
  by (auto simp: reply_outcome_def split: outcome.splits reason.splits)

lemma handleResponse_settles:
  "settled (handleResponse this data w) = settled w \<or>
   (\<exists>q out. settled (handleResponse this data w) = settled w @ [(q, out)] \<and>
      reply_outcome out)"
proof (cases "JSON_parse data")
  case None
  then show ?thesis
    by (simp add: handleResponse_unparsed console_add_def)
next
  case (Some response)
  show ?thesis
  proof (cases "get_prop response (str ''id'')")
    case (Inl e)
    then show ?thesis
      using Some by (simp add: handleResponse_unreadable console_add_def)
  next
    case (Inr response_id)
    show ?thesis
    proof (cases "Option.bind (managers w this) (\<lambda>mgr. Map_get (pendingRequests mgr) response_id)")
      case None
      then show ?thesis
        using Some Inr
        by (simp add: handleResponse_def handleResponse_try_unmatched console_add_def)
    next
      case found: (Some pr)
      then obtain mgr where mgr: "managers w this = Some mgr"
        and pend: "Map_get (pendingRequests mgr) response_id = Some pr"
        by (auto simp: bind_eq_Some_conv)
      obtain ms where obj: "response = JObj ms"
        using found_is_object [OF Inr pend] by blast
      obtain r e where gr: "get_prop response (str ''result'') = Inr r"
        and ge: "get_prop response (str ''error'') = Inr e"
        by (simp add: obj get_prop_object)
      show ?thesis
        using mgr
        by (cases r; cases e)
          (auto simp: handleResponse_matched [OF Some Inr mgr pend gr ge] reply_outcome_def
            console_add_def clearTimeout_def update_manager_def settle_def)
    qed
  qed
qed

lemma stdout_data_settles:
  assumes "(q, out) \<in> set (settled (stdout_data pr data w))"
  shows "(q, out) \<in> set (settled w) \<or> reply_outcome out"
proof -
  have "(q, out) \<in> set (settled (fold (\<lambda>this. handleResponse this data) ls w)) \<Longrightarrow>
      (q, out) \<in> set (settled w) \<or> reply_outcome out" for ls
  proof (induction ls arbitrary: w)
    case Nil
    then show ?case by simp
  next
    case (Cons this ls)
    from Cons.IH [of "handleResponse this data w"] Cons.prems
    have "(q, out) \<in> set (settled (handleResponse this data w)) \<or> reply_outcome out"
      by simp
    then show ?case
      using handleResponse_settles [of this data w] by auto
  qed
  then show ?thesis
    using assms by (auto simp: stdout_data_def split: option.splits)
qed

lemma sendRequest_settles:
  "settled (snd (sendRequest this method params timeoutMs w)) = settled w \<or>
   settled (snd (sendRequest this method params timeoutMs w)) =
     settled w @
       [(next_promise w, Reject (Thrown (JStr (str ''Python process stdin not available''))))]"
  by (simp add: sendRequest_def Let_def console_add_def clearTimeout_def update_manager_def
      settle_def split: option.splits)

lemma settled_getRequestManager: "settled (snd (getRequestManager env w)) = settled w"
  by (simp add: getRequestManager_def startPythonProcess_def new_PythonRequestManager_def
      Let_def split: option.splits prod.splits)

lemma step_settles:
  assumes "(q, out) \<in> set (settled (step e w))"
  shows "(q, out) \<in> set (settled w) \<or> reply_outcome out \<or>
     (\<exists>h cb. timers w h = Some cb \<and> cb_reject cb = q \<and>
        out = Reject (ErrorObject
          (timeout_message (cb_id cb) (cb_method cb) (cb_timeoutMs cb)))) \<or>
     (next_promise w \<le> q \<and>
      out = Reject (Thrown (JStr (str ''Python process stdin not available''))))"
proof (cases e)
  case (SendToPython meth params env)
  obtain m w1 where g: "getRequestManager env w = (m, w1)"
    by (cases "getRequestManager env w")
  have "settled w1 = settled w" "next_promise w1 = next_promise w"
    using settled_getRequestManager [of env w] next_promise_getRequestManager [of env w] g
    by simp_all
  then show ?thesis
    using assms sendRequest_settles [of m meth params 10000 w1]
    by (auto simp: SendToPython sendToPython_def g)
next
  case (GetRequestManager env)
  then show ?thesis
    using assms by (simp add: settled_getRequestManager)
next
  case (SendRequest this meth params timeoutMs)
  then show ?thesis
    using assms sendRequest_settles [of this meth params timeoutMs w] by auto
next
  case (StdoutData pr data)
  then show ?thesis
    using assms stdout_data_settles [of q out pr data w] by auto
next
  case (TimerFires h)
  show ?thesis
  proof (cases "timers w h")
    case None
    then show ?thesis
      using assms TimerFires by (simp add: timer_fires_def)
  next
    case (Some cb)
    have "settled (timer_fires h w) = settled w @
        [(cb_reject cb,
          Reject (ErrorObject (timeout_message (cb_id cb) (cb_method cb) (cb_timeoutMs cb))))]"
      by (simp add: timer_fires_def Some timeout_callback_def Let_def update_manager_def
          console_add_def settle_def split: option.splits)
    then show ?thesis
      using assms TimerFires Some by auto
  qed
next
  case (ProcessExit pr)
  then show ?thesis
    using assms by (simp add: process_exit_def on_exit_def console_add_def split: option.splits)
next
  case (StdinBreaks pr)
  then show ?thesis using assms by (simp add: stdin_breaks_def)
next
  case Deactivate
  then show ?thesis using assms by (auto simp: deactivate_def split: option.splits if_splits)
qed

text \<open>Calls of \<open>resolve\<close> and \<open>reject\<close> are only ever added.\<close>

lemma settled_step_grows: "\<exists>xs. settled (step e w) = settled w @ xs"
proof (cases e)
  case (SendToPython meth params env)
  obtain m w1 where g: "getRequestManager env w = (m, w1)"
    by (cases "getRequestManager env w")
  have "settled w1 = settled w"
    using settled_getRequestManager [of env w] g by simp
  then show ?thesis
    using sendRequest_settles [of m meth params 10000 w1]
    by (auto simp: SendToPython sendToPython_def g)
next
  case (GetRequestManager env)
  then show ?thesis by (simp add: settled_getRequestManager)
next
  case (SendRequest this meth params timeoutMs)
  then show ?thesis
    using sendRequest_settles [of this meth params timeoutMs w] by auto
next
  case (StdoutData pr data)
  have "\<exists>xs. settled (fold (\<lambda>this. handleResponse this data) ls w) = settled w @ xs" for ls
  proof (induction ls arbitrary: w)
    case Nil
    then show ?case by simp
  next
    case (Cons this ls)
    obtain xs where "settled (fold (\<lambda>this. handleResponse this data) ls
        (handleResponse this data w)) = settled (handleResponse this data w) @ xs"
      using Cons.IH by blast
    then show ?case
      using handleResponse_settles [of this data w] by auto
  qed
  then show ?thesis
    by (simp add: StdoutData stdout_data_def split: option.splits)
next
  case (TimerFires h)
  then show ?thesis
    by (simp add: timer_fires_def timeout_callback_def Let_def update_manager_def
        console_add_def settle_def split: option.splits)
next
  case (ProcessExit pr)
  then show ?thesis
    by (simp add: process_exit_def on_exit_def console_add_def split: option.splits)
next
  case (StdinBreaks pr)
  then show ?thesis by (simp add: stdin_breaks_def)
next
  case Deactivate
  then show ?thesis by (simp add: deactivate_def split: option.splits)
qed

lemma settled_run_grows: "\<exists>xs. settled (run es w) = settled w @ xs"
proof (induction es rule: rev_induct)
  case Nil
  then show ?case by (simp add: run_def)
next
  case (snoc e es)
  then obtain xs where "settled (run es w) = settled w @ xs" by blast
  moreover obtain ys where "settled (step e (run es w)) = settled (run es w) @ ys"
    using settled_step_grows by blast
  ultimately show ?case by (simp add: run_snoc)
qed

text \<open>
  C1. Take any reachable state, any call of \<open>sendRequest\<close> on a manager of that
  state, the first call of a manager included, with the promise \<open>p\<close> it
  returns, and any sequence of events after it: chunks on any process's
  \<open>stdout\<close> in any order and any number of times, timeouts firing, further
  calls, exits. Then \<open>resolve\<close> and \<open>reject\<close> of \<open>p\<close> have been called at most once
  between them; as long as they have not been called, the call's timeout is
  armed and its firing settles \<open>p\<close>, once, with the timeout error; once no
  armed timeout belongs to \<open>p\<close>, they have been called exactly once; and the
  value that \<open>p\<close> is settled with is of one of five kinds: a result, a truthy
  error payload, the generic message for an envelope with neither, the timeout
  error of this call, or the message for a missing \<open>stdin\<close>. Where the worker's
  \<open>stdin\<close> is \<open>null\<close> at the call, the settlement is the last of these and stays
  the only one; where it is not, the settlement is one of the other four.
\<close>

theorem C1_settles_exactly_once:
  assumes "managers (run es init) this = Some mgr"
    and "sendRequest this method params timeoutMs (run es init) = (p, w1)"
  shows "length (outcomes (run es' w1) p) \<le> 1 \<and>
     (outcomes (run es' w1) p = [] \<longrightarrow>
        (\<exists>h cb. timers (run es' w1) h = Some cb \<and> cb_reject cb = p \<and>
           outcomes (timer_fires h (run es' w1)) p =
             [Reject (ErrorObject
                (str ''Request '' @ show_nat (requestId mgr) @ str '' ('' @ method @
                 str '') timed out after '' @ show_nat timeoutMs @ str ''ms''))])) \<and>
     ((\<forall>h cb. timers (run es' w1) h = Some cb \<longrightarrow> cb_reject cb \<noteq> p) \<longrightarrow>
        length (outcomes (run es' w1) p) = 1) \<and>
     (\<forall>out \<in> set (outcomes (run es' w1) p).
        (\<exists>r. out = Resolve r) \<or>
        (\<exists>e. truthy e \<and> out = Reject (Thrown e)) \<or>
        out = Reject (Thrown (JStr (str ''No result or error in response''))) \<or>
        out = Reject (ErrorObject
                (str ''Request '' @ show_nat (requestId mgr) @ str '' ('' @ method @
                 str '') timed out after '' @ show_nat timeoutMs @ str ''ms'')) \<or>
        out = Reject (Thrown (JStr (str ''Python process stdin not available'')))) \<and>
     (Option.bind (procs (run es init) (process mgr)) stdin = None \<longrightarrow>
        outcomes (run es' w1) p =
          [Reject (Thrown (JStr (str ''Python process stdin not available'')))]) \<and>
     (Option.bind (procs (run es init) (process mgr)) stdin \<noteq> None \<longrightarrow>
        (\<forall>out \<in> set (outcomes (run es' w1) p).
           (\<exists>r. out = Resolve r) \<or>
           (\<exists>e. truthy e \<and> out = Reject (Thrown e)) \<or>
           out = Reject (Thrown (JStr (str ''No result or error in response''))) \<or>
           out = Reject (ErrorObject
                   (str ''Request '' @ show_nat (requestId mgr) @ str '' ('' @ method @
                    str '') timed out after '' @ show_nat timeoutMs @ str ''ms''))))"
proof -
  let ?w0 = "run es init"
  let ?w2 = "run es' w1"
  let ?msg = "timeout_message (requestId mgr) method timeoutMs"
  let ?cb0 = "\<lparr>cb_this = this, cb_id = requestId mgr, cb_method = method,
               cb_timeoutMs = timeoutMs, cb_reject = p\<rparr>"
  let ?gone = "Reject (Thrown (JStr (str ''Python process stdin not available'')))"
  let ?stdin = "Option.bind (procs ?w0 (process mgr)) stdin"
  note mgr = assms(1)
  have inv0: "inv ?w0" by (rule inv_reachable)
  have w1: "w1 = step (SendRequest this method params timeoutMs) ?w0"
    using assms(2) by simp
  have w2: "?w2 = run (es @ SendRequest this method params timeoutMs # es') init"
    by (simp add: w1 run_def)
  have inv: "inv ?w2"
    unfolding w2 by (rule inv_reachable)
  have p: "p = next_promise ?w0" "next_promise w1 = Suc p"
    using sendRequest_promise [OF mgr, of "method" params timeoutMs] assms(2) by simp_all
  have ph: "p = next_timer ?w0" and fresh: "outcomes ?w0 p = []"
    using inv0 p(1) unfolding inv_def promises_ok_def by simp_all
  have none: "timers w1 p = None \<and> outcomes w1 p = [?gone]" if "?stdin = None"
    using assms(2) fresh p(1) ph
    by (auto simp: sendRequest_unavailable [OF mgr that] outcomes_def)
  have some: "timers w1 p = Some ?cb0 \<and> outcomes w1 p = []" if st: "?stdin \<noteq> None"
  proof -
    obtain s where s: "?stdin = Some s"
      using st by blast
    show ?thesis
      using assms(2) fresh p(1) ph
      by (auto simp: sendRequest_written [OF mgr s] outcomes_def)
  qed
  have start: "(timers w1 p = Some ?cb0 \<and> outcomes w1 p = []) \<or>
      (timers w1 p = None \<and> outcomes w1 p = [?gone])"
    using none some by blast
  have nt1: "p < next_timer w1"
    using assms(2) ph mgr
    by (auto simp: sendRequest_def Let_def console_add_def clearTimeout_def
        update_manager_def settle_def split: option.splits)
  have mine: "cb = ?cb0" if "timers (run xs w1) h = Some cb" "cb_reject cb = p" for xs h cb
  proof -
    have "inv (run xs w1)"
      using inv_reachable [of "es @ SendRequest this method params timeoutMs # xs"]
      by (simp add: w1 run_def)
    then have "cb_reject cb = h"
      using that(1) unfolding inv_def timers_ok_def by blast
    then have "timers (run xs w1) p = Some cb"
      using that by simp
    then show ?thesis
      using timers_run [OF nt1, of xs] start by auto
  qed
  have lt: "p < next_promise ?w2"
    using next_promise_run [of w1 es'] p(2) by simp
  from inv lt have once: "length (outcomes ?w2 p) \<le> 1"
    and armed: "outcomes ?w2 p = [] \<Longrightarrow> timers ?w2 p \<noteq> None"
    unfolding inv_def promises_ok_def by blast+
  have fire: "\<exists>h cb. timers ?w2 h = Some cb \<and> cb_reject cb = p \<and>
           outcomes (timer_fires h ?w2) p = [Reject (ErrorObject ?msg)]"
    if un: "outcomes ?w2 p = []"
  proof -
    obtain cb where cb: "timers ?w2 p = Some cb"
      using armed [OF un] by blast
    then obtain mgr2 where r: "cb_reject cb = p" and m2: "managers ?w2 (cb_this cb) = Some mgr2"
      using inv unfolding inv_def timers_ok_def by blast
    have "cb = ?cb0"
      using mine [OF cb r] .
    then have c: "cb_id cb = requestId mgr" "cb_method cb = method" "cb_timeoutMs cb = timeoutMs"
      by simp_all
    have "outcomes (timer_fires p ?w2) p = [Reject (ErrorObject ?msg)]"
      using un r by (simp add: timer_fires_effect [OF cb m2] outcomes_def c)
    then show ?thesis using cb r by blast
  qed
  have settled_once: "length (outcomes ?w2 p) = 1"
    if no: "\<forall>h cb. timers ?w2 h = Some cb \<longrightarrow> cb_reject cb \<noteq> p"
  proof -
    have "outcomes ?w2 p \<noteq> []"
    proof
      assume un: "outcomes ?w2 p = []"
      then obtain cb where cb: "timers ?w2 p = Some cb"
        using armed by blast
      then have "cb_reject cb = p"
        using inv unfolding inv_def timers_ok_def by blast
      then show False using no cb by blast
    qed
    then show ?thesis
      using once by (cases "outcomes ?w2 p") auto
  qed
  have kinds: "reply_outcome out \<or> out = Reject (ErrorObject ?msg) \<or>
      (?stdin = None \<and> out = ?gone)"
    if "(p, out) \<in> set (settled (run xs w1))" for xs out
    using that
  proof (induction xs arbitrary: out rule: rev_induct)
    case Nil
    then have "out \<in> set (outcomes w1 p)"
      by (force simp: run_def outcomes_def)
    then show ?case
      using none some by (cases "?stdin = None") auto
  next
    case (snoc e xs)
    let ?w = "run xs w1"
    from step_settles [of p out e ?w] snoc.prems
    consider "(p, out) \<in> set (settled ?w)" | "reply_outcome out"
      | h cb where "timers ?w h = Some cb" "cb_reject cb = p"
          "out = Reject (ErrorObject
             (timeout_message (cb_id cb) (cb_method cb) (cb_timeoutMs cb)))"
      | "next_promise ?w \<le> p"
      by (auto simp: run_snoc)
    then show ?case
    proof cases
      case 1
      then show ?thesis by (rule snoc.IH)
    next
      case 2
      then show ?thesis by simp
    next
      case 3
      from mine [OF 3(1,2)] 3(3) show ?thesis by simp
    next
      case 4
      then show ?thesis
        using next_promise_run [of w1 xs] p(2) by simp
    qed
  qed
  have member: "(p, out) \<in> set (settled ?w2)" if "out \<in> set (outcomes ?w2 p)" for out
    using that by (auto simp: outcomes_def)
  have all: "\<forall>out \<in> set (outcomes ?w2 p).
        (\<exists>r. out = Resolve r) \<or>
        (\<exists>e. truthy e \<and> out = Reject (Thrown e)) \<or>
        out = Reject (Thrown (JStr (str ''No result or error in response''))) \<or>
        out = Reject (ErrorObject ?msg) \<or> out = ?gone"
  proof
    fix out assume "out \<in> set (outcomes ?w2 p)"
    from kinds [OF member [OF this]]
    have "reply_outcome out \<or> out = Reject (ErrorObject ?msg) \<or> out = ?gone"
      by blast
    then show "(\<exists>r. out = Resolve r) \<or>
        (\<exists>e. truthy e \<and> out = Reject (Thrown e)) \<or>
        out = Reject (Thrown (JStr (str ''No result or error in response''))) \<or>
        out = Reject (ErrorObject ?msg) \<or> out = ?gone"
      unfolding reply_outcome_iff by blast
  qed
  have written: "?stdin \<noteq> None \<longrightarrow> (\<forall>out \<in> set (outcomes ?w2 p).
        (\<exists>r. out = Resolve r) \<or>
        (\<exists>e. truthy e \<and> out = Reject (Thrown e)) \<or>
        out = Reject (Thrown (JStr (str ''No result or error in response''))) \<or>
        out = Reject (ErrorObject ?msg))"
  proof (intro impI ballI)
    fix out assume st: "?stdin \<noteq> None" and "out \<in> set (outcomes ?w2 p)"
    from kinds [OF member [OF this(2)]] st
    have "reply_outcome out \<or> out = Reject (ErrorObject ?msg)"
      by blast
    then show "(\<exists>r. out = Resolve r) \<or>
        (\<exists>e. truthy e \<and> out = Reject (Thrown e)) \<or>
        out = Reject (Thrown (JStr (str ''No result or error in response''))) \<or>
        out = Reject (ErrorObject ?msg)"
      unfolding reply_outcome_iff by blast
  qed
  have unavailable: "?stdin = None \<longrightarrow> outcomes ?w2 p = [?gone]"
  proof
    assume st: "?stdin = None"
    obtain xs where "settled ?w2 = settled w1 @ xs"
      using settled_run_grows by blast
    then have "outcomes ?w2 p = outcomes w1 p @ map snd (filter (\<lambda>x. fst x = p) xs)"
      by (simp add: outcomes_def)
    then have "outcomes ?w2 p = ?gone # map snd (filter (\<lambda>x. fst x = p) xs)"
      using none [OF st] by simp
    then show "outcomes ?w2 p = [?gone]"
      using once by simp
  qed
  from fire have fire': "outcomes ?w2 p = [] \<longrightarrow>
        (\<exists>h cb. timers ?w2 h = Some cb \<and> cb_reject cb = p \<and>
           outcomes (timer_fires h ?w2) p = [Reject (ErrorObject ?msg)])"
    by blast
  from settled_once have settled_once':
    "(\<forall>h cb. timers ?w2 h = Some cb \<longrightarrow> cb_reject cb \<noteq> p) \<longrightarrow> length (outcomes ?w2 p) = 1"
    by blast
  show ?thesis
    by (intro conjI once fire' [unfolded timeout_message_def] settled_once'
        all [unfolded timeout_message_def] unavailable written [unfolded timeout_message_def])
qed

lemma parse_reply_ok_2:
  "JSON_parse reply_ok_2 =
     Some (JObj [(str ''jsonrpc'', JStr (str ''2.0'')), (str ''id'', JNum (Finite 2)),
                 (str ''result'', JStr (str ''ok''))])"
  by (simp add: reply_ok_2_def json_eval)

lemma parse_reply_a_1:
  "JSON_parse reply_a_1 =
     Some (JObj [(str ''jsonrpc'', JStr (str ''2.0'')), (str ''id'', JNum (Finite 1)),
                 (str ''result'', JStr (str ''a''))])"
  by (simp add: reply_a_1_def json_eval)

lemma one_pending_run:
  "one_pending =
     run [SendToPython (str ''say_hello'') (JObj [(str ''name'', JStr (str ''x''))]) env_ok] init"
  by (simp add: one_pending_def run_def)

lemma manager_created_manager:
  "managers (run [GetRequestManager env_ok] init) 0 =
     Some \<lparr>pendingRequests = Map.empty, requestId = 1, process = 0\<rparr>"
  by (simp add: env_ok_def world_eval)

lemma first_call:
  "sendRequest 0 (str ''say_hello'') (JObj [(str ''name'', JStr (str ''x''))]) 10000
     (run [GetRequestManager env_ok] init) = (0, one_pending)"
  by (simp add: one_pending_def env_ok_def world_eval)

lemma show_nat_small:
  "show_nat (Suc 0) = str ''1''" "show_nat (Suc (Suc 0)) = str ''2''"
  "show_nat (Suc (Suc (Suc 0))) = str ''3''" "show_nat 1 = str ''1''"
  "show_nat 2 = str ''2''" "show_nat 3 = str ''3''"
  "show_nat 3000 = str ''3000''" "show_nat 10000 = str ''10000''"
  by (simp_all add: show_nat.simps digit_char_def str_def)

theorem C1_witness:
  "outcomes (run [StdoutData 0 reply_a_1, StdoutData 0 reply_a_1, TimerFires 0] one_pending) 0 =
     [Resolve (JStr (str ''a''))] \<and>
   outcomes (run [] one_pending) 0 = [] \<and>
   outcomes (timer_fires 0 (run [] one_pending)) 0 =
     [Reject (ErrorObject (str ''Request 1 (say_hello) timed out after 10000ms''))]"
  using
    C1_settles_exactly_once [OF manager_created_manager first_call,
      of "[StdoutData 0 reply_a_1, StdoutData 0 reply_a_1, TimerFires 0]"]
    C1_settles_exactly_once [OF manager_created_manager first_call, of "[]"]
  by (simp add: one_pending_def env_ok_def world_eval outcomes_def parse_reply_a_1
      show_nat_small str_cat)

section \<open>Identifiers and correlation\<close>

lemma number_key_nat: "number_key (Some (JNum (Finite (of_nat i)))) = Some i"
  by (simp add: number_key_def)

lemma Map_get_nat: "Map_get m (Some (JNum (Finite (of_nat i)))) = m i"
  by (simp add: Map_get_def number_key_nat)

lemma Map_delete_nat: "Map_delete m (Some (JNum (Finite (of_nat i)))) = m(i := None)"
  by (simp add: Map_delete_def number_key_nat)

lemma requestId_handleResponse:
  assumes "managers w m = Some mgr"
  shows "\<exists>mgr'. managers (handleResponse this data w) m = Some mgr' \<and>
      requestId mgr' = requestId mgr \<and>
      (\<forall>i. pendingRequests mgr i = None \<longrightarrow> pendingRequests mgr' i = None)"
  using handleResponse_effect [of this data w] assms by (cases "m = this") auto

lemma requestId_stdout_data:
  assumes "managers w m = Some mgr"
  shows "\<exists>mgr'. managers (stdout_data pr data w) m = Some mgr' \<and>
      requestId mgr' = requestId mgr \<and>
      (\<forall>i. pendingRequests mgr i = None \<longrightarrow> pendingRequests mgr' i = None)"
proof -
  have "\<exists>mgr'. managers (fold (\<lambda>this. handleResponse this data) ls w) m = Some mgr' \<and>
      requestId mgr' = requestId mgr \<and>
      (\<forall>i. pendingRequests mgr i = None \<longrightarrow> pendingRequests mgr' i = None)"
    if "managers w m = Some mgr" for ls w mgr
    using that
  proof (induction ls arbitrary: w mgr)
    case Nil
    then show ?case by simp
  next
    case (Cons this ls)
    obtain mgr1 where m1: "managers (handleResponse this data w) m = Some mgr1"
      "requestId mgr1 = requestId mgr"
      "\<forall>i. pendingRequests mgr i = None \<longrightarrow> pendingRequests mgr1 i = None"
      using requestId_handleResponse [OF Cons.prems] by blast
    from Cons.IH [OF m1(1)] m1(2,3) show ?case by auto
  qed
  from this [OF assms] show ?thesis
    by (auto simp: stdout_data_def assms split: option.splits)
qed

lemma requestId_sendRequest:
  assumes "managers w m = Some mgr"
  shows "\<exists>mgr'. managers (snd (sendRequest this method params timeoutMs w)) m = Some mgr' \<and>
      requestId mgr \<le> requestId mgr' \<and>
      (\<forall>i. i < requestId mgr \<longrightarrow> pendingRequests mgr i = None \<longrightarrow>
           pendingRequests mgr' i = None)"
  using assms
  by (cases "m = this")
    (auto simp: sendRequest_def Let_def console_add_def clearTimeout_def update_manager_def
      settle_def split: option.splits)

lemma requestId_getRequestManager:
  assumes "heap_ok w" and "managers w m = Some mgr"
  shows "managers (snd (getRequestManager env w)) m = Some mgr"
proof -
  have "m \<noteq> next_mref w"
    using assms unfolding heap_ok_def by auto
  then show ?thesis
    using assms(2)
    by (auto simp: getRequestManager_def startPythonProcess_def new_PythonRequestManager_def
      Let_def split: option.splits prod.splits)
qed

lemma requestId_timer_fires:
  assumes "managers w m = Some mgr"
  shows "\<exists>mgr'. managers (timer_fires h w) m = Some mgr' \<and>
      requestId mgr' = requestId mgr \<and>
      (\<forall>i. pendingRequests mgr i = None \<longrightarrow> pendingRequests mgr' i = None)"
  using assms
  by (cases "timers w h")
    (auto simp: timer_fires_def timeout_callback_def Let_def update_manager_def
      console_add_def settle_def split: option.splits)

lemma requestId_step:
  assumes "inv w" and "managers w m = Some mgr"
  shows "\<exists>mgr'. managers (step e w) m = Some mgr' \<and> requestId mgr \<le> requestId mgr' \<and>
      (\<forall>i. i < requestId mgr \<longrightarrow> pendingRequests mgr i = None \<longrightarrow>
           pendingRequests mgr' i = None)"
proof (cases e)
  case (SendToPython meth params env)
  obtain m1 w1 where g: "getRequestManager env w = (m1, w1)"
    by (cases "getRequestManager env w")
  have "managers w1 m = Some mgr"
    using requestId_getRequestManager [of w m mgr env] assms g by (simp add: inv_def)
  from requestId_sendRequest [OF this, of m1 meth params 10000]
  show ?thesis by (simp add: SendToPython sendToPython_def g)
next
  case (GetRequestManager env)
  then show ?thesis
    using requestId_getRequestManager [of w m mgr env] assms by (simp add: inv_def)
next
  case (SendRequest this meth params timeoutMs)
  then show ?thesis using requestId_sendRequest [OF assms(2)] by simp
next
  case (StdoutData pr data)
  then show ?thesis using requestId_stdout_data [OF assms(2), of pr data] by auto
next
  case (TimerFires h)
  then show ?thesis using requestId_timer_fires [OF assms(2), of h] by auto
next
  case (ProcessExit pr)
  then show ?thesis
    using assms(2) by (simp add: process_exit_def on_exit_def console_add_def split: option.splits)
next
  case (StdinBreaks pr)
  then show ?thesis using assms(2) by (simp add: stdin_breaks_def)
next
  case Deactivate
  then show ?thesis using assms(2) by (simp add: deactivate_def split: option.splits)
qed

lemma requestId_run:
  assumes "inv w" and "managers w m = Some mgr"
  shows "\<exists>mgr'. managers (run es w) m = Some mgr' \<and> requestId mgr \<le> requestId mgr' \<and>
      (\<forall>i. i < requestId mgr \<longrightarrow> pendingRequests mgr i = None \<longrightarrow>
           pendingRequests mgr' i = None)"
proof (induction es rule: rev_induct)
  case Nil
  then show ?case using assms(2) by (simp add: run_def)
next
  case (snoc e es)
  then obtain mgr1 where m1: "managers (run es w) m = Some mgr1"
    "requestId mgr \<le> requestId mgr1"
    "\<forall>i. i < requestId mgr \<longrightarrow> pendingRequests mgr i = None \<longrightarrow> pendingRequests mgr1 i = None"
    by blast
  from requestId_step [OF inv_run [OF assms(1)] m1(1), of e]
  obtain mgr2 where m2: "managers (step e (run es w)) m = Some mgr2"
    "requestId mgr1 \<le> requestId mgr2"
    "\<forall>i. i < requestId mgr1 \<longrightarrow> pendingRequests mgr1 i = None \<longrightarrow> pendingRequests mgr2 i = None"
    by blast
  show ?case
    using m1 m2 by (auto simp: run_snoc)
qed


lemma handleResponse_result:
  assumes mgr: "managers w this = Some mgr"
    and pend: "pendingRequests mgr i = Some pr"
    and env: "result_envelope data i r"
  shows "settled (handleResponse this data w) = settled w @ [(resolve pr, Resolve r)]"
    and "managers (handleResponse this data w) =
       (managers w)(this \<mapsto> mgr\<lparr>pendingRequests := (pendingRequests mgr)(i := None)\<rparr>)"
proof -
  from env obtain response where parse: "JSON_parse data = Some response"
    and rid: "get_prop response (str ''id'') = Inr (Some (JNum (Finite (of_nat i))))"
    and res: "get_prop response (str ''result'') = Inr (Some r)"
    by (auto simp: result_envelope_def split: option.splits)
  have look: "Map_get (pendingRequests mgr) (Some (JNum (Finite (of_nat i)))) = Some pr"
    using pend by (simp add: Map_get_nat)
  obtain ms where "response = JObj ms"
    using found_is_object [OF rid look] by blast
  then obtain e where ge: "get_prop response (str ''error'') = Inr e"
    by (simp add: get_prop_object)
  note eq = handleResponse_matched [OF parse rid mgr look res ge]
  show "settled (handleResponse this data w) = settled w @ [(resolve pr, Resolve r)]"
    by (simp add: eq settle_def update_manager_def clearTimeout_def console_add_def
        split: option.splits)
  show "managers (handleResponse this data w) =
       (managers w)(this \<mapsto> mgr\<lparr>pendingRequests := (pendingRequests mgr)(i := None)\<rparr>)"
    using mgr
    by (simp add: eq settle_def update_manager_def clearTimeout_def console_add_def
        Map_delete_nat)
qed

lemma deliver_results:
  assumes "managers w this = Some mgr"
    and "distinct (map fst xs)"
    and "\<forall>(i, data, r) \<in> set xs. pendingRequests mgr i \<noteq> None \<and> result_envelope data i r"
  shows "settled (fold (\<lambda>(i, data, r). handleResponse this data) xs w) =
     settled w @ map (\<lambda>(i, data, r). (resolve (the (pendingRequests mgr i)), Resolve r)) xs"
  using assms
proof (induction xs arbitrary: w mgr)
  case Nil
  then show ?case by simp
next
  case (Cons x xs)
  obtain i data r where x: "x = (i, data, r)"
    by (cases x)
  obtain pr where pr: "pendingRequests mgr i = Some pr" and env: "result_envelope data i r"
    using Cons.prems(3) x by auto
  let ?w1 = "handleResponse this data w"
  let ?mgr1 = "mgr\<lparr>pendingRequests := (pendingRequests mgr)(i := None)\<rparr>"
  have s1: "settled ?w1 = settled w @ [(resolve pr, Resolve r)]"
    and m1: "managers ?w1 this = Some ?mgr1"
    using handleResponse_result [OF Cons.prems(1) pr env] by simp_all
  have rest: "\<forall>(j, data, r) \<in> set xs. pendingRequests ?mgr1 j \<noteq> None \<and> result_envelope data j r"
    using Cons.prems(2,3) x by (auto simp: rev_image_eqI)
  have same: "map (\<lambda>(j, data, r). (resolve (the (pendingRequests ?mgr1 j)), Resolve r)) xs =
      map (\<lambda>(j, data, r). (resolve (the (pendingRequests mgr j)), Resolve r)) xs"
    using Cons.prems(2) x by (auto simp: rev_image_eqI)
  have "distinct (map fst xs)"
    using Cons.prems(2) by simp
  from Cons.IH [OF m1 this rest]
  have "settled (fold (\<lambda>(i, data, r). handleResponse this data) xs ?w1) =
      (settled w @ [(resolve pr, Resolve r)]) @
      map (\<lambda>(j, data, r). (resolve (the (pendingRequests mgr j)), Resolve r)) xs"
    by (simp only: s1 same)
  then show ?case
    by (simp add: x pr)
qed


lemma sendRequest_allocates:
  assumes "managers w this = Some mgr"
  shows "\<exists>mgr'.
        managers (snd (sendRequest this method params timeoutMs w)) this = Some mgr' \<and>
        requestId mgr' = requestId mgr + 1 \<and>
        (\<forall>i. i \<noteq> requestId mgr \<longrightarrow> pendingRequests mgr' i = pendingRequests mgr i) \<and>
        (\<forall>e. pendingRequests mgr' (requestId mgr) = Some e \<longrightarrow>
           id_req e = requestId mgr \<and>
           resolve e = fst (sendRequest this method params timeoutMs w)) \<and>
        (\<forall>s. Option.bind (procs w (process mgr)) stdin = Some s \<longrightarrow>
           pendingRequests mgr' (requestId mgr) \<noteq> None \<and>
           written (snd (sendRequest this method params timeoutMs w)) =
             written w @ [(process mgr,
               \<lparr>rq_jsonrpc = str ''2.0'', rq_id = requestId mgr, rq_method = method,
                rq_params = params\<rparr>)])"
proof (cases "Option.bind (procs w (process mgr)) stdin")
  case None
  show ?thesis
    by (simp add: sendRequest_unavailable [OF assms None] None)
next
  case (Some s)
  show ?thesis
    by (simp add: sendRequest_written [OF assms Some] Some)
qed

lemma pending_promises_distinct:
  assumes "inv w" and "managers w m = Some mgr"
    and "pendingRequests mgr i = Some e" and "pendingRequests mgr j = Some e'" and "i \<noteq> j"
  shows "resolve e \<noteq> resolve e'"
proof
  assume eq: "resolve e = resolve e'"
  from assms(1) have p: "pending_ok w" by (simp add: inv_def)
  obtain cb where cb: "resolve e = timeout e" "timers w (timeout e) = Some cb" "cb_id cb = i"
    using p assms(2,3) unfolding pending_ok_def by blast
  obtain cb' where cb': "resolve e' = timeout e'" "timers w (timeout e') = Some cb'"
    "cb_id cb' = j"
    using p assms(2,4) unfolding pending_ok_def by blast
  from eq cb cb' have "cb = cb'" by simp
  then show False using cb(3) cb'(3) assms(5) by simp
qed

text \<open>
  C2. In every reachable state and for every manager of it, one that
  \<open>getRequestManager\<close> has just created included: no identifier
  from the manager's counter upwards is pending; \<open>sendRequest\<close> allocates the
  counter's value, stores the pending request and writes the request under
  it, and advances the counter by one, leaving every other pending request as
  it was; the counter never decreases afterwards, and an identifier below it
  that is not pending never becomes pending again; pending requests with
  different identifiers belong to different promises; and when envelopes with
  results for pending requests with distinct identifiers are delivered, in any
  order \<open>ys\<close> of any list \<open>xs\<close> of them, each promise is resolved with the result
  of the envelope that carries its identifier.
\<close>

theorem C2_identifiers_and_correlation:
  assumes mgr: "managers (run es init) this = Some mgr"
  shows "(\<forall>i. requestId mgr \<le> i \<longrightarrow> pendingRequests mgr i = None) \<and>
     (\<forall>method params timeoutMs. \<exists>mgr'.
        managers (snd (sendRequest this method params timeoutMs (run es init))) this = Some mgr' \<and>
        requestId mgr' = requestId mgr + 1 \<and>
        (\<forall>i. i \<noteq> requestId mgr \<longrightarrow> pendingRequests mgr' i = pendingRequests mgr i) \<and>
        (\<forall>e. pendingRequests mgr' (requestId mgr) = Some e \<longrightarrow>
           id_req e = requestId mgr \<and>
           resolve e = fst (sendRequest this method params timeoutMs (run es init))) \<and>
        (\<forall>s. Option.bind (procs (run es init) (process mgr)) stdin = Some s \<longrightarrow>
           pendingRequests mgr' (requestId mgr) \<noteq> None \<and>
           written (snd (sendRequest this method params timeoutMs (run es init))) =
             written (run es init) @ [(process mgr,
               \<lparr>rq_jsonrpc = str ''2.0'', rq_id = requestId mgr, rq_method = method,
                rq_params = params\<rparr>)])) \<and>
     (\<forall>es'. \<exists>mgr'. managers (run es' (run es init)) this = Some mgr' \<and>
        requestId mgr \<le> requestId mgr' \<and>
        (\<forall>i. i < requestId mgr \<longrightarrow> pendingRequests mgr i = None \<longrightarrow>
           pendingRequests mgr' i = None)) \<and>
     (\<forall>i j e e'. pendingRequests mgr i = Some e \<and> pendingRequests mgr j = Some e' \<and> i \<noteq> j \<longrightarrow>
        resolve e \<noteq> resolve e') \<and>
     (\<forall>xs ys. distinct (map fst xs) \<and>
        (\<forall>(i, data, r) \<in> set xs. pendingRequests mgr i \<noteq> None \<and> result_envelope data i r) \<and>
        mset ys = mset xs \<longrightarrow>
        settled (fold (\<lambda>(i, data, r). handleResponse this data) ys (run es init)) =
          settled (run es init) @
          map (\<lambda>(i, data, r). (resolve (the (pendingRequests mgr i)), Resolve r)) ys)"
proof -
  have inv: "inv (run es init)" by (rule inv_reachable)
  have fresh: "\<forall>i. requestId mgr \<le> i \<longrightarrow> pendingRequests mgr i = None"
  proof (intro allI impI)
    fix i assume le: "requestId mgr \<le> i"
    show "pendingRequests mgr i = None"
    proof (cases "pendingRequests mgr i")
      case (Some e)
      then have "i < requestId mgr"
        using inv mgr unfolding inv_def pending_ok_def by blast
      then show ?thesis using le by simp
    qed simp
  qed
  have perm: "settled (fold (\<lambda>(i, data, r). handleResponse this data) ys (run es init)) =
          settled (run es init) @
          map (\<lambda>(i, data, r). (resolve (the (pendingRequests mgr i)), Resolve r)) ys"
    if d: "distinct (map fst xs)"
      and e: "\<forall>(i, data, r) \<in> set xs. pendingRequests mgr i \<noteq> None \<and> result_envelope data i r"
      and m: "mset ys = mset xs" for xs ys
  proof -
    have "mset (map fst ys) = mset (map fst xs)"
      using m by simp
    then have "distinct (map fst ys)"
      using d mset_eq_imp_distinct_iff by blast
    moreover have "set ys = set xs"
      using m mset_eq_setD by blast
    ultimately show ?thesis
      using deliver_results [OF mgr, of ys] e by simp
  qed
  show ?thesis
    using fresh sendRequest_allocates [OF mgr] requestId_run [OF inv mgr]
      pending_promises_distinct [OF inv mgr] perm
    by (intro conjI allI impI) blast+
qed


lemma three_calls_manager:
  "managers (run three_calls init) 0 =
     Some \<lparr>pendingRequests =
             [1 \<mapsto> \<lparr>id_req = 1, resolve = 0, reject = 0, timeout = 0\<rparr>,
              2 \<mapsto> \<lparr>id_req = 2, resolve = 1, reject = 1, timeout = 1\<rparr>,
              3 \<mapsto> \<lparr>id_req = 3, resolve = 2, reject = 2, timeout = 2\<rparr>],
           requestId = 4, process = 0\<rparr>"
  by (simp add: three_calls_def env_ok_def world_eval numeral_2_eq_2 [symmetric])

lemma three_calls_settled: "settled (run three_calls init) = []"
  by (simp add: three_calls_def env_ok_def world_eval)

lemma three_replies:
  "result_envelope reply_a_1 (Suc 0) (JStr (str ''a''))"
  "result_envelope reply_b_2 2 (JStr (str ''b''))"
  "result_envelope reply_c_3 3 (JStr (str ''c''))"
  by (simp_all add: result_envelope_def reply_a_1_def reply_b_2_def reply_c_3_def json_eval
      get_prop_def)

theorem C2_witness:
  "settled (fold (\<lambda>(i, data, r). handleResponse 0 data)
       [(3, reply_c_3, JStr (str ''c'')), (1, reply_a_1, JStr (str ''a'')),
        (2, reply_b_2, JStr (str ''b''))]
       (run three_calls init)) =
     [(2, Resolve (JStr (str ''c''))), (0, Resolve (JStr (str ''a''))),
      (1, Resolve (JStr (str ''b'')))] \<and>
   (\<exists>mgr'. managers (snd (sendRequest 0 (str ''say_hello'') JNull 3000
                 (run [GetRequestManager env_ok] init))) 0 = Some mgr' \<and>
      requestId mgr' = 2 \<and>
      (\<forall>e. pendingRequests mgr' 1 = Some e \<longrightarrow> id_req e = 1 \<and> resolve e = 0) \<and>
      pendingRequests mgr' 1 \<noteq> None)"
proof -
  note C = C2_identifiers_and_correlation [OF three_calls_manager]
  note D = C2_identifiers_and_correlation [OF manager_created_manager]
  have "mset [(3, reply_c_3, JStr (str ''c'')), (1, reply_a_1, JStr (str ''a'')),
              (2, reply_b_2, JStr (str ''b''))] =
      mset [(1::nat, reply_a_1, JStr (str ''a'')), (2, reply_b_2, JStr (str ''b'')),
            (3, reply_c_3, JStr (str ''c''))]"
    by (simp add: add_mset_commute)
  with C [THEN conjunct2, THEN conjunct2, THEN conjunct2, THEN conjunct2, rule_format,
      of "[(1, reply_a_1, JStr (str ''a'')), (2, reply_b_2, JStr (str ''b'')),
           (3, reply_c_3, JStr (str ''c''))]"
         "[(3, reply_c_3, JStr (str ''c'')), (1, reply_a_1, JStr (str ''a'')),
           (2, reply_b_2, JStr (str ''b''))]"]
  have "settled (fold (\<lambda>(i, data, r). handleResponse 0 data)
       [(3, reply_c_3, JStr (str ''c'')), (1, reply_a_1, JStr (str ''a'')),
        (2, reply_b_2, JStr (str ''b''))]
       (run three_calls init)) =
     [(2, Resolve (JStr (str ''c''))), (0, Resolve (JStr (str ''a''))),
      (1, Resolve (JStr (str ''b'')))]"
    by (simp add: three_replies three_calls_settled)
  moreover have "fst (sendRequest 0 (str ''say_hello'') JNull 3000
      (run [GetRequestManager env_ok] init)) = 0"
    and "Option.bind (procs (run [GetRequestManager env_ok] init) 0) stdin = Some Open"
    by (simp_all add: env_ok_def world_eval)
  with D [THEN conjunct2, THEN conjunct1, rule_format, of "str ''say_hello''" JNull 3000]
  have "\<exists>mgr'. managers (snd (sendRequest 0 (str ''say_hello'') JNull 3000
                 (run [GetRequestManager env_ok] init))) 0 = Some mgr' \<and>
      requestId mgr' = 2 \<and>
      (\<forall>e. pendingRequests mgr' 1 = Some e \<longrightarrow> id_req e = 1 \<and> resolve e = 0) \<and>
      pendingRequests mgr' 1 \<noteq> None"
    by auto
  ultimately show ?thesis by simp
qed

section \<open>Orphan envelopes\<close>

lemma handleResponse_unmatched:
  assumes "JSON_parse data = Some response"
    and "get_prop response (str ''id'') = Inr response_id"
    and "Option.bind (managers w this) (\<lambda>mgr. Map_get (pendingRequests mgr) response_id) = None"
  shows "handleResponse this data w =
     w\<lparr>console := console w @
        [ConsoleLog (str ''Raw Python response:''), ConsoleLog (str ''Parsed Python response:''),
         ConsoleWarn (str ''Received response for unknown request ID:'')]\<rparr>"
  by (simp add: handleResponse_def handleResponse_try_unmatched [OF assms] console_add_def)

text \<open>
  C9. When the identifier of an inbound envelope matches no pending request of
  the manager (an identifier never issued, or one whose request has been
  settled and deleted), the \<open>try\<close> block of \<open>handleResponse\<close> completes without an
  exception and \<open>handleResponse\<close> changes nothing but the console, where it logs
  a warning: no promise is settled, and every pending request of every manager
  and every armed timeout stays as it was.
\<close>

theorem C9_orphan_envelope:
  assumes "JSON_parse data = Some response"
    and "get_prop response (str ''id'') = Inr response_id"
    and "Option.bind (managers w this) (\<lambda>mgr. Map_get (pendingRequests mgr) response_id) = None"
  shows "handleResponse_try this data w = Inr (handleResponse this data w) \<and>
     handleResponse this data w =
       w\<lparr>console := console w @
          [ConsoleLog (str ''Raw Python response:''), ConsoleLog (str ''Parsed Python response:''),
           ConsoleWarn (str ''Received response for unknown request ID:'')]\<rparr> \<and>
     settled (handleResponse this data w) = settled w \<and>
     managers (handleResponse this data w) = managers w \<and>
     timers (handleResponse this data w) = timers w"
  by (simp add: handleResponse_unmatched [OF assms] handleResponse_try_unmatched [OF assms]
      console_add_def)

lemma one_pending_timers:
  "timers one_pending =
     [0 \<mapsto> \<lparr>cb_this = 0, cb_id = 1, cb_method = str ''say_hello'', cb_timeoutMs = 10000,
             cb_reject = 0\<rparr>]"
  by (simp add: one_pending_def env_ok_def world_eval)

theorem C9_witness:
  "settled (handleResponse 0 reply_ok_2 one_pending) = [] \<and>
   managers (handleResponse 0 reply_ok_2 one_pending) 0 =
     Some \<lparr>pendingRequests = [1 \<mapsto> \<lparr>id_req = 1, resolve = 0, reject = 0, timeout = 0\<rparr>],
           requestId = 2, process = 0\<rparr> \<and>
   timers (handleResponse 0 reply_ok_2 one_pending) 0 =
     Some \<lparr>cb_this = 0, cb_id = 1, cb_method = str ''say_hello'', cb_timeoutMs = 10000,
           cb_reject = 0\<rparr>"
  using C9_orphan_envelope [OF parse_reply_ok_2, of "Some (JNum (Finite 2))" one_pending 0]
  by (simp add: get_prop_def Map_get_def number_key_def one_pending_manager
      one_pending_settled one_pending_timers)


section \<open>Timeouts\<close>


lemma handleResponse_late:
  assumes "envelope_for data i"
    and "managers w this = Some mgr" and "pendingRequests mgr i = None"
  shows "settled (handleResponse this data w) = settled w \<and>
     managers (handleResponse this data w) = managers w \<and>
     timers (handleResponse this data w) = timers w"
proof -
  from assms(1) obtain response where parse: "JSON_parse data = Some response"
    and rid: "get_prop response (str ''id'') = Inr (Some (JNum (Finite (of_nat i))))"
    by (auto simp: envelope_for_def split: option.splits)
  have "Option.bind (managers w this)
      (\<lambda>mgr. Map_get (pendingRequests mgr) (Some (JNum (Finite (of_nat i))))) = None"
    using assms(2,3) by (simp add: Map_get_nat)
  from handleResponse_unmatched [OF parse rid this] show ?thesis by simp
qed

lemma digit_val_digit_char: "d < 10 \<Longrightarrow> digit_val (digit_char d) = d"
proof -
  assume "d < 10"
  then have "d \<in> {0, 1, 2, 3, 4, 5, 6, 7, 8, 9}" by auto
  then show ?thesis by (auto simp: digit_val_def digit_char_def str_def)
qed

lemma digits_val_snoc: "digits_val (ds @ [d]) = 10 * digits_val ds + digit_val d"
  by (simp add: digits_val_def)

text \<open>The numeral that a template literal prints reads back as the number printed.\<close>

lemma digits_val_show_nat: "digits_val (show_nat n) = n"
proof (induction n rule: show_nat.induct)
  case (1 n)
  show ?case
  proof (cases "n < 10")
    case True
    then show ?thesis
      by (subst show_nat.simps) (simp add: digits_val_def digit_val_digit_char)
  next
    case False
    then show ?thesis
      using 1 by (subst show_nat.simps) (simp add: digits_val_snoc digit_val_digit_char)
  qed
qed

text \<open>
  C7. Take a call of \<open>sendRequest\<close> in a reachable state, on a manager whose
  worker has a \<open>stdin\<close>, the first call of a manager included, and any events
  after it that leave the call's timeout armed (no matching envelope has
  cleared it). Then the call is still pending; when the timeout fires, the
  request is deleted from \<open>pendingRequests\<close> and its promise is rejected with an
  \<open>Error\<close> whose message is \<^verbatim>\<open>Request\<close>, the decimal numeral of the identifier,
  the method in parentheses, \<^verbatim>\<open>timed out after\<close>, the decimal numeral of the
  duration passed to \<open>sendRequest\<close>, and \<^verbatim>\<open>ms\<close>; and an envelope with that
  identifier that arrives at any later time finds no pending request: it
  settles nothing and leaves all pending requests and timeouts unchanged.
\<close>

theorem C7_timeout_then_orphan:
  assumes mgr: "managers (run es init) this = Some mgr"
    and stdin: "Option.bind (procs (run es init) (process mgr)) stdin \<noteq> None"
    and call: "sendRequest this method params timeoutMs (run es init) = (p, w1)"
    and armed: "timers (run es' w1) (next_timer (run es init)) \<noteq> None"
  shows "(\<exists>mgr2 e. managers (run es' w1) this = Some mgr2 \<and>
        pendingRequests mgr2 (requestId mgr) = Some e \<and> resolve e = p \<and> reject e = p \<and>
        timeout e = next_timer (run es init)) \<and>
     settled (timer_fires (next_timer (run es init)) (run es' w1)) =
       settled (run es' w1) @
         [(p, Reject (ErrorObject
            (str ''Request '' @ show_nat (requestId mgr) @ str '' ('' @ method @
             str '') timed out after '' @ show_nat timeoutMs @ str ''ms'')))] \<and>
     digits_val (show_nat (requestId mgr)) = requestId mgr \<and>
     digits_val (show_nat timeoutMs) = timeoutMs \<and>
     timers (timer_fires (next_timer (run es init)) (run es' w1)) =
       (timers (run es' w1))(next_timer (run es init) := None) \<and>
     (\<exists>mgr3. managers (timer_fires (next_timer (run es init)) (run es' w1)) this = Some mgr3 \<and>
        pendingRequests mgr3 (requestId mgr) = None) \<and>
     (\<forall>es'' data. envelope_for data (requestId mgr) \<longrightarrow>
        settled (handleResponse this data
          (run es'' (timer_fires (next_timer (run es init)) (run es' w1)))) =
          settled (run es'' (timer_fires (next_timer (run es init)) (run es' w1))) \<and>
        managers (handleResponse this data
          (run es'' (timer_fires (next_timer (run es init)) (run es' w1)))) =
          managers (run es'' (timer_fires (next_timer (run es init)) (run es' w1))) \<and>
        timers (handleResponse this data
          (run es'' (timer_fires (next_timer (run es init)) (run es' w1)))) =
          timers (run es'' (timer_fires (next_timer (run es init)) (run es' w1))))"
proof -
  let ?w = "run es init"
  let ?h = "next_timer ?w"
  let ?i = "requestId mgr"
  let ?w2 = "run es' w1"
  let ?w3 = "timer_fires ?h ?w2"
  let ?cb = "\<lparr>cb_this = this, cb_id = ?i, cb_method = method, cb_timeoutMs = timeoutMs,
              cb_reject = next_promise ?w\<rparr>"
  obtain s where s: "Option.bind (procs ?w (process mgr)) stdin = Some s"
    using stdin by blast
  note sent = sendRequest_written [OF mgr s, of "method" params timeoutMs]
  have p: "p = next_promise ?w" and t1: "timers w1 ?h = Some ?cb"
    and n1: "?h < next_timer w1"
    using call by (auto simp: sent)
  have w2: "?w2 = run (es @ SendRequest this method params timeoutMs # es') init"
    using call by (simp add: run_def)
  have inv2: "inv ?w2"
    unfolding w2 by (rule inv_reachable)
  have t2: "timers ?w2 ?h = Some ?cb"
    using timers_run [OF n1, of es'] armed t1 by auto
  from inv2 t2 obtain mgr2 e where
    m2: "managers ?w2 this = Some mgr2" and e: "pendingRequests mgr2 ?i = Some e"
      "timeout e = ?h"
    unfolding inv_def timers_ok_def by fastforce
  from inv2 m2 e(1) have pe: "?i < requestId mgr2" "reject e = resolve e"
    "resolve e = timeout e"
    unfolding inv_def pending_ok_def by blast+
  have eqp: "next_promise ?w = ?h"
    using inv_reachable [of es] unfolding inv_def promises_ok_def by blast
  have re: "resolve e = p" "reject e = p"
    using pe(2,3) e(2) p eqp by simp_all
  note fired = timer_fires_effect [OF t2, of mgr2]
  have w3: "?w3 =
     ?w2\<lparr>console := console ?w2 @ [ConsoleError (timeout_message ?i method timeoutMs)],
       timers := (timers ?w2)(?h := None),
       managers := (managers ?w2)(this \<mapsto>
         mgr2\<lparr>pendingRequests := (pendingRequests mgr2)(?i := None)\<rparr>),
       settled := settled ?w2 @
         [(p, Reject (ErrorObject (timeout_message ?i method timeoutMs)))]\<rparr>"
    using fired m2 p by simp
  let ?mgr3 = "mgr2\<lparr>pendingRequests := (pendingRequests mgr2)(?i := None)\<rparr>"
  have m3: "managers ?w3 this = Some ?mgr3"
    by (subst w3) simp
  have inv3: "inv ?w3"
    by (rule inv_timer_fires [OF inv2])
  have late: "settled (handleResponse this data (run es'' ?w3)) = settled (run es'' ?w3) \<and>
        managers (handleResponse this data (run es'' ?w3)) = managers (run es'' ?w3) \<and>
        timers (handleResponse this data (run es'' ?w3)) = timers (run es'' ?w3)"
    if env: "envelope_for data ?i" for es'' data
  proof -
    from requestId_run [OF inv3 m3, of es''] pe(1)
    obtain mgr4 where "managers (run es'' ?w3) this = Some mgr4"
      "pendingRequests mgr4 ?i = None"
      by auto
    from handleResponse_late [OF env this] show ?thesis .
  qed
  have a: "\<exists>mgr2 e. managers ?w2 this = Some mgr2 \<and>
        pendingRequests mgr2 ?i = Some e \<and> resolve e = p \<and> reject e = p \<and> timeout e = ?h"
    using m2 e re by blast
  have b: "settled ?w3 = settled ?w2 @
         [(p, Reject (ErrorObject (timeout_message ?i method timeoutMs)))]"
    by (subst w3) simp
  have c: "timers ?w3 = (timers ?w2)(?h := None)"
    by (subst w3) simp
  have d: "\<exists>mgr3. managers ?w3 this = Some mgr3 \<and> pendingRequests mgr3 ?i = None"
    using m3 by simp
  have n: "digits_val (show_nat ?i) = ?i" "digits_val (show_nat timeoutMs) = timeoutMs"
    by (simp_all add: digits_val_show_nat)
  show ?thesis
    using a b c d late n unfolding timeout_message_def by blast
qed


theorem C7_witness:
  "settled (timer_fires 0 (run [StdoutData 0 reply_ok_2] one_pending)) =
     [(0, Reject (ErrorObject (str ''Request 1 (say_hello) timed out after 10000ms'')))] \<and>
   settled (handleResponse 0 reply_a_1
      (run [] (timer_fires 0 (run [StdoutData 0 reply_ok_2] one_pending)))) =
     [(0, Reject (ErrorObject (str ''Request 1 (say_hello) timed out after 10000ms'')))] \<and>
   digits_val (show_nat 10000) = 10000"
proof -
  let ?es = "[GetRequestManager env_ok]"
  have i: "Option.bind (procs (run ?es init)
        (process \<lparr>pendingRequests = Map.empty, requestId = 1, process = 0\<rparr>)) stdin \<noteq> None"
    and n: "next_timer (run ?es init) = 0"
    by (simp_all add: env_ok_def world_eval)
  have a: "timers (run [StdoutData 0 reply_ok_2] one_pending) 0 \<noteq> None"
    and s: "settled (run [StdoutData 0 reply_ok_2] one_pending) = []"
    by (simp_all add: one_pending_def env_ok_def world_eval parse_reply_ok_2)
  have e: "envelope_for reply_a_1 1"
    by (simp add: envelope_for_def parse_reply_a_1 get_prop_def)
  from C7_timeout_then_orphan [OF manager_created_manager i first_call,
      of "[StdoutData 0 reply_ok_2]"] a
  have "settled (timer_fires 0 (run [StdoutData 0 reply_ok_2] one_pending)) =
       settled (run [StdoutData 0 reply_ok_2] one_pending) @
         [(0, Reject (ErrorObject
            (str ''Request '' @ show_nat 1 @ str '' ('' @ str ''say_hello'' @
             str '') timed out after '' @ show_nat 10000 @ str ''ms'')))] \<and>
     digits_val (show_nat 10000) = 10000 \<and>
     (\<forall>es'' data. envelope_for data 1 \<longrightarrow>
        settled (handleResponse 0 data
          (run es'' (timer_fires 0 (run [StdoutData 0 reply_ok_2] one_pending)))) =
          settled (run es'' (timer_fires 0 (run [StdoutData 0 reply_ok_2] one_pending))))"
    by (simp add: n)
  then have "settled (timer_fires 0 (run [StdoutData 0 reply_ok_2] one_pending)) =
       [(0, Reject (ErrorObject
            (str ''Request '' @ show_nat 1 @ str '' ('' @ str ''say_hello'' @
             str '') timed out after '' @ show_nat 10000 @ str ''ms'')))]"
    and "settled (handleResponse 0 reply_a_1
          (run [] (timer_fires 0 (run [StdoutData 0 reply_ok_2] one_pending)))) =
          settled (run [] (timer_fires 0 (run [StdoutData 0 reply_ok_2] one_pending)))"
    and "digits_val (show_nat 10000) = 10000"
    using s e by simp_all
  then show ?thesis
    by (simp add: show_nat_small str_cat run_def)
qed

section \<open>Inbound chunks\<close>

lemma handleResponse_console:
  "(handleResponse this data (w\<lparr>console := x\<rparr>))\<lparr>console := c\<rparr> =
   (handleResponse this data w)\<lparr>console := c\<rparr>"
proof (cases "JSON_parse data")
  case None
  then show ?thesis
    by (simp add: handleResponse_unparsed console_add_def)
next
  case (Some response)
  show ?thesis
  proof (cases "get_prop response (str ''id'')")
    case (Inl e)
    then show ?thesis
      using Some by (simp add: handleResponse_unreadable console_add_def)
  next
    case (Inr response_id)
    show ?thesis
    proof (cases "Option.bind (managers w this) (\<lambda>mgr. Map_get (pendingRequests mgr) response_id)")
      case None
      then have "Option.bind (managers (w\<lparr>console := x\<rparr>) this)
          (\<lambda>mgr. Map_get (pendingRequests mgr) response_id) = None"
        by simp
      from handleResponse_unmatched [OF Some Inr this] handleResponse_unmatched [OF Some Inr None]
      show ?thesis by simp
    next
      case found: (Some pr)
      then obtain mgr where mgr: "managers w this = Some mgr"
        and pend: "Map_get (pendingRequests mgr) response_id = Some pr"
        by (auto simp: bind_eq_Some_conv)
      have mgr': "managers (w\<lparr>console := x\<rparr>) this = Some mgr"
        using mgr by simp
      obtain ms where obj: "response = JObj ms"
        using found_is_object [OF Inr pend] by blast
      obtain r e where gr: "get_prop response (str ''result'') = Inr r"
        and ge: "get_prop response (str ''error'') = Inr e"
        by (simp add: obj get_prop_object)
      show ?thesis
        using mgr
        by (simp add: handleResponse_matched [OF Some Inr mgr pend gr ge]
            handleResponse_matched [OF Some Inr mgr' pend gr ge]
            console_add_def clearTimeout_def update_manager_def settle_def)
    qed
  qed
qed

lemma handleResponse_console_ex:
  "\<exists>c. handleResponse this data (w\<lparr>console := x\<rparr>) =
     (handleResponse this data w)\<lparr>console := c\<rparr>"
proof -
  let ?a = "handleResponse this data (w\<lparr>console := x\<rparr>)"
  let ?b = "handleResponse this data w"
  have "?a = (?a\<lparr>console := []\<rparr>)\<lparr>console := console ?a\<rparr>"
    by simp
  also have "\<dots> = (?b\<lparr>console := []\<rparr>)\<lparr>console := console ?a\<rparr>"
    by (simp only: handleResponse_console [where c = "[]"])
  also have "\<dots> = ?b\<lparr>console := console ?a\<rparr>"
    by simp
  finally show ?thesis by blast
qed

lemma stdout_data_console:
  "(stdout_data pr data (w\<lparr>console := x\<rparr>))\<lparr>console := c\<rparr> =
   (stdout_data pr data w)\<lparr>console := c\<rparr>"
proof -
  have "(fold (\<lambda>this. handleResponse this data) ls (w\<lparr>console := x\<rparr>))\<lparr>console := c\<rparr> =
      (fold (\<lambda>this. handleResponse this data) ls w)\<lparr>console := c\<rparr>" for ls
  proof (induction ls arbitrary: w x)
    case Nil
    then show ?case by simp
  next
    case (Cons this ls)
    obtain y where "handleResponse this data (w\<lparr>console := x\<rparr>) =
        (handleResponse this data w)\<lparr>console := y\<rparr>"
      using handleResponse_console_ex by blast
    then show ?case
      using Cons.IH [where w = "handleResponse this data w" and x = y] by simp
  qed
  then show ?thesis
    by (simp add: stdout_data_def split: option.splits)
qed

lemma stdout_data_unparsed:
  assumes "JSON_parse data = None"
  shows "\<exists>x. stdout_data pr data w = w\<lparr>console := x\<rparr>"
proof -
  have "\<exists>x. fold (\<lambda>this. handleResponse this data) ls w = w\<lparr>console := x\<rparr>" for ls
  proof (induction ls arbitrary: w)
    case Nil
    have "w = w\<lparr>console := console w\<rparr>" by simp
    then show ?case by (simp only: fold.simps id_apply) blast
  next
    case (Cons this ls)
    obtain y where y: "fold (\<lambda>this. handleResponse this data) ls (handleResponse this data w) =
        (handleResponse this data w)\<lparr>console := y\<rparr>"
      using Cons.IH by blast
    have "fold (\<lambda>this. handleResponse this data) (this # ls) w =
        fold (\<lambda>this. handleResponse this data) ls (handleResponse this data w)"
      by simp
    also have "\<dots> = (handleResponse this data w)\<lparr>console := y\<rparr>"
      by (rule y)
    also have "\<dots> = w\<lparr>console := y\<rparr>"
      by (simp add: handleResponse_unparsed [OF assms] console_add_def)
    finally show ?case by blast
  qed
  then show ?thesis
  proof (cases "Option.bind (procs w pr) stdout")
    case None
    have "w = w\<lparr>console := console w\<rparr>"
      by simp
    then have "\<exists>x. w = w\<lparr>console := x\<rparr>" ..
    then show ?thesis
      using None by (simp add: stdout_data_def)
  qed (simp add: stdout_data_def)
qed

text \<open>
  C3, as the code has it. \<open>handleResponse\<close> keeps no buffer: it passes the text
  of each chunk whole to \<^verbatim>\<open>JSON.parse\<close>. A chunk whose text is not one JSON text
  (the first half of a line, say, or two lines) is logged as a parse failure
  and dropped:
  the delivery changes nothing but the console, whatever listeners the process
  has. Nothing of the chunk is retained, so a later chunk, on any process, is
  handled exactly as if the dropped one had never arrived, the console apart;
  and when the later chunk is not a JSON text either, as for an envelope
  split into two parts neither of which is a JSON text, the two deliveries
  together change nothing but the console: no envelope is decoded.
\<close>

theorem C3_chunks_are_not_buffered:
  assumes "JSON_parse data = None"
  shows "handleResponse this data w =
       w\<lparr>console := console w @
          [ConsoleLog (str ''Raw Python response:''),
           ConsoleError (str ''Failed to parse Python response:'')]\<rparr> \<and>
     (\<forall>data' c. (handleResponse this data' (handleResponse this data w))\<lparr>console := c\<rparr> =
        (handleResponse this data' w)\<lparr>console := c\<rparr>) \<and>
     (\<forall>c. (stdout_data pr data w)\<lparr>console := c\<rparr> = w\<lparr>console := c\<rparr>) \<and>
     (\<forall>pr' data' c. (stdout_data pr' data' (stdout_data pr data w))\<lparr>console := c\<rparr> =
        (stdout_data pr' data' w)\<lparr>console := c\<rparr>) \<and>
     (\<forall>pr' data' c. JSON_parse data' = None \<longrightarrow>
        (stdout_data pr' data' (stdout_data pr data w))\<lparr>console := c\<rparr> = w\<lparr>console := c\<rparr>)"
proof -
  obtain x where x: "stdout_data pr data w = w\<lparr>console := x\<rparr>"
    using stdout_data_unparsed [OF assms] by blast
  have a: "(stdout_data pr data w)\<lparr>console := c\<rparr> = w\<lparr>console := c\<rparr>" for c
    by (simp add: x)
  have b: "(stdout_data pr' data' (stdout_data pr data w))\<lparr>console := c\<rparr> =
        (stdout_data pr' data' w)\<lparr>console := c\<rparr>" for pr' data' c
    by (simp only: x stdout_data_console)
  have c: "(stdout_data pr' data' (stdout_data pr data w))\<lparr>console := c\<rparr> = w\<lparr>console := c\<rparr>"
    if d: "JSON_parse data' = None" for pr' data' c
  proof -
    obtain y where "stdout_data pr' data' w = w\<lparr>console := y\<rparr>"
      using stdout_data_unparsed [OF d] by blast
    then show ?thesis
      using b by simp
  qed
  show ?thesis
    using a b c
    by (simp add: handleResponse_unparsed [OF assms] console_add_def handleResponse_console)
qed

lemma parse_split:
  "JSON_parse split_head = None" "JSON_parse split_tail = None" "JSON_parse two_lines = None"
  "JSON_parse (split_head @ split_tail) =
     Some (JObj [(str ''jsonrpc'', JStr (str ''2.0'')), (str ''id'', JNum (Finite 1)),
                 (str ''result'', JStr (str ''ok''))])"
  by (simp_all add: split_head_def split_tail_def two_lines_def json_eval)

text \<open>
  C3, as stated, fails. With request \<open>1\<close> pending, the envelope
  \<^verbatim>\<open>{"jsonrpc":"2.0","id":1,"result":"ok"}\<close> delivered in two chunks settles
  nothing: each chunk is logged as unparseable and the request stays pending,
  whereas the same text in one chunk resolves it. A chunk that holds two
  complete envelopes yields none either.
\<close>

theorem C3_counterexample:
  "settled (run [StdoutData 0 split_head, StdoutData 0 split_tail] one_pending) = [] \<and>
   console (run [StdoutData 0 split_head, StdoutData 0 split_tail] one_pending) =
     console one_pending @
       [ConsoleLog (str ''Raw Python response:''),
        ConsoleError (str ''Failed to parse Python response:''),
        ConsoleLog (str ''Raw Python response:''),
        ConsoleError (str ''Failed to parse Python response:'')] \<and>
   managers (run [StdoutData 0 split_head, StdoutData 0 split_tail] one_pending) 0 =
     managers one_pending 0 \<and>
   settled (run [StdoutData 0 (split_head @ split_tail)] one_pending) =
     [(0, Resolve (JStr (str ''ok'')))] \<and>
   settled (run [StdoutData 0 two_lines] (run three_calls init)) = []"
  by (simp add: one_pending_def three_calls_def env_ok_def world_eval parse_split)

theorem C3_witness:
  "handleResponse 0 split_head one_pending =
     one_pending\<lparr>console := console one_pending @
        [ConsoleLog (str ''Raw Python response:''),
         ConsoleError (str ''Failed to parse Python response:'')]\<rparr> \<and>
   (stdout_data 0 split_tail (stdout_data 0 split_head one_pending))\<lparr>console := []\<rparr> =
     one_pending\<lparr>console := []\<rparr> \<and>
   settled (stdout_data 0 (split_head @ split_tail) (stdout_data 0 split_head one_pending)) =
     [(0, Resolve (JStr (str ''ok'')))]"
proof -
  note C = C3_chunks_are_not_buffered [OF parse_split(1), of 0 one_pending 0]
  from C have a: "handleResponse 0 split_head one_pending =
     one_pending\<lparr>console := console one_pending @
        [ConsoleLog (str ''Raw Python response:''),
         ConsoleError (str ''Failed to parse Python response:'')]\<rparr>"
    and b: "\<forall>pr' data' c. (stdout_data pr' data' (stdout_data 0 split_head one_pending))
          \<lparr>console := c\<rparr> = (stdout_data pr' data' one_pending)\<lparr>console := c\<rparr>"
    and c: "\<forall>pr' data' c. JSON_parse data' = None \<longrightarrow>
        (stdout_data pr' data' (stdout_data 0 split_head one_pending))\<lparr>console := c\<rparr> =
        one_pending\<lparr>console := c\<rparr>"
    by blast+
  have "settled ((stdout_data 0 (split_head @ split_tail)
              (stdout_data 0 split_head one_pending))\<lparr>console := []\<rparr>) =
      settled ((stdout_data 0 (split_head @ split_tail) one_pending)\<lparr>console := []\<rparr>)"
    using b by (simp only:)
  then have "settled (stdout_data 0 (split_head @ split_tail)
              (stdout_data 0 split_head one_pending)) =
      settled (stdout_data 0 (split_head @ split_tail) one_pending)"
    by simp
  moreover have "settled (stdout_data 0 (split_head @ split_tail) one_pending) =
      [(0, Resolve (JStr (str ''ok'')))]"
    by (simp add: one_pending_def env_ok_def world_eval parse_split)
  ultimately show ?thesis
    using a c parse_split(2) by simp
qed

section \<open>Sending without a usable stdin\<close>

text \<open>
  C8, as the code has it. When the worker's \<open>stdin\<close> is \<open>null\<close> at the time of the
  call, \<open>sendRequest\<close>, on any manager of a reachable state and for the first
  call of a manager as for a later one, rejects the promise at once with
  \<^verbatim>\<open>'Python process stdin not available'\<close>; the request is not left in
  \<open>pendingRequests\<close>, and no timeout for it remains armed.
\<close>

theorem C8_missing_stdin_rejects_at_once:
  assumes mgr: "managers (run es init) this = Some mgr"
    and stdin: "Option.bind (procs (run es init) (process mgr)) stdin = None"
    and call: "sendRequest this method params timeoutMs (run es init) = (p, w')"
  shows "settled w' = settled (run es init) @
         [(p, Reject (Thrown (JStr (str ''Python process stdin not available''))))] \<and>
     outcomes w' p = [Reject (Thrown (JStr (str ''Python process stdin not available'')))] \<and>
     timers w' = timers (run es init) \<and>
     timers w' (next_timer (run es init)) = None \<and>
     (\<forall>h cb. timers w' h = Some cb \<longrightarrow> cb_reject cb \<noteq> p) \<and>
     (\<exists>mgr'. managers w' this = Some mgr' \<and> pendingRequests mgr' = pendingRequests mgr \<and>
        pendingRequests mgr' (requestId mgr) = None)"
proof -
  let ?w = "run es init"
  have inv: "inv ?w" by (rule inv_reachable)
  note eq = sendRequest_unavailable [OF mgr stdin, of "method" params timeoutMs]
  have p: "p = next_promise ?w"
    and w': "w' = ?w\<lparr>next_promise := Suc (next_promise ?w), next_timer := Suc (next_timer ?w),
        timers := (timers ?w)(next_timer ?w := None),
        managers := (managers ?w)(this \<mapsto>
          mgr\<lparr>requestId := requestId mgr + 1,
              pendingRequests := (pendingRequests mgr)(requestId mgr := None)\<rparr>),
        settled := settled ?w @
          [(next_promise ?w, Reject (Thrown (JStr (str ''Python process stdin not available''))))]\<rparr>"
    using call eq by auto
  have tfresh: "timers ?w (next_timer ?w) = None"
    using inv unfolding inv_def timers_ok_def by (cases "timers ?w (next_timer ?w)") auto
  have pfresh: "pendingRequests mgr (requestId mgr) = None"
    using inv mgr unfolding inv_def pending_ok_def
    by (cases "pendingRequests mgr (requestId mgr)") auto
  have ofresh: "outcomes ?w p = []"
    using inv p unfolding inv_def promises_ok_def by simp
  have lower: "cb_reject cb < next_promise ?w" if "timers ?w h = Some cb" for h cb
    using inv that unfolding inv_def timers_ok_def promises_ok_def by fastforce
  have a: "settled w' = settled ?w @
         [(p, Reject (Thrown (JStr (str ''Python process stdin not available''))))]"
    by (subst w') (simp add: p)
  have b: "outcomes w' p = [Reject (Thrown (JStr (str ''Python process stdin not available'')))]"
    using ofresh by (simp add: outcomes_def a)
  have c: "timers w' = timers ?w"
    using tfresh by (subst w') (auto simp: fun_eq_iff)
  have d: "\<forall>h cb. timers w' h = Some cb \<longrightarrow> cb_reject cb \<noteq> p"
    using lower unfolding c p by fastforce
  have e: "\<exists>mgr'. managers w' this = Some mgr' \<and> pendingRequests mgr' = pendingRequests mgr \<and>
        pendingRequests mgr' (requestId mgr) = None"
    using pfresh by (subst w') (auto simp: fun_eq_iff)
  show ?thesis
    using a b c d e tfresh by simp
qed

lemma no_stdin_manager:
  "managers (run [GetRequestManager env_no_stdin] init) 0 =
     Some \<lparr>pendingRequests = Map.empty, requestId = 1, process = 0\<rparr>"
  by (simp add: env_no_stdin_def world_eval)

theorem C8_witness:
  "sendToPython (str ''say_hello'') JNull env_no_stdin init =
     sendRequest 0 (str ''say_hello'') JNull 10000 (run [GetRequestManager env_no_stdin] init) \<and>
   settled (snd (sendRequest 0 (str ''say_hello'') JNull 10000
       (run [GetRequestManager env_no_stdin] init))) =
     [(0, Reject (Thrown (JStr (str ''Python process stdin not available''))))] \<and>
   timers (snd (sendRequest 0 (str ''say_hello'') JNull 10000
       (run [GetRequestManager env_no_stdin] init))) 0 = None \<and>
   (\<exists>mgr'. managers (snd (sendRequest 0 (str ''say_hello'') JNull 10000
       (run [GetRequestManager env_no_stdin] init))) 0 = Some mgr' \<and>
      pendingRequests mgr' 1 = None)"
proof -
  let ?w = "run [GetRequestManager env_no_stdin] init"
  have i: "Option.bind (procs ?w
        (process \<lparr>pendingRequests = Map.empty, requestId = 1, process = 0\<rparr>)) stdin = None"
    and n: "next_timer ?w = 0"
    and s: "settled ?w = []"
    and p: "fst (sendRequest 0 (str ''say_hello'') JNull 10000 ?w) = 0"
    and e: "sendToPython (str ''say_hello'') JNull env_no_stdin init =
      sendRequest 0 (str ''say_hello'') JNull 10000 ?w"
    by (simp_all add: env_no_stdin_def world_eval)
  note C = C8_missing_stdin_rejects_at_once [OF no_stdin_manager i surjective_pairing,
      of "str ''say_hello''" JNull 10000]
  from C e show ?thesis
    by (auto simp: n s p)
qed

text \<open>
  C8, as stated, fails where the stream exists and the write fails. The
  outcome of \<open>stdin.write\<close> is not inspected: after the pipe to the worker has
  broken, a call is not settled; it stays in \<open>pendingRequests\<close> with its timeout
  armed.
\<close>

theorem C8_counterexample:
  "Option.bind (procs broken_pipe 0) stdin = Some Broken \<and>
   settled (snd (sendRequest 0 (str ''process_path'') (JObj []) 3000 broken_pipe)) = [] \<and>
   timers (snd (sendRequest 0 (str ''process_path'') (JObj []) 3000 broken_pipe)) 1 =
     Some \<lparr>cb_this = 0, cb_id = 2, cb_method = str ''process_path'', cb_timeoutMs = 3000,
           cb_reject = 1\<rparr> \<and>
   Option.bind (managers (snd (sendRequest 0 (str ''process_path'') (JObj []) 3000 broken_pipe)) 0)
       (\<lambda>mgr. pendingRequests mgr 2) =
     Some \<lparr>id_req = 2, resolve = 1, reject = 1, timeout = 1\<rparr>"
  by (simp add: broken_pipe_def env_ok_def world_eval numeral_2_eq_2 [symmetric])

section \<open>Teardown\<close>

lemma pending_timeout_fires:
  assumes inv: "inv w"
    and mgr: "managers w m = Some mgr" and ent: "pendingRequests mgr i = Some e"
    and frame: "settled w' = settled w" "timers w' = timers w" "managers w' = managers w"
  shows "\<exists>cb. timers w' (timeout e) = Some cb \<and> cb_this cb = m \<and> cb_id cb = i \<and>
     settled (timer_fires (timeout e) w') = settled w @
       [(reject e,
         Reject (ErrorObject (timeout_message i (cb_method cb) (cb_timeoutMs cb))))]"
proof -
  from inv mgr ent obtain cb where
    r: "reject e = resolve e" "resolve e = timeout e"
    and cb: "timers w (timeout e) = Some cb" "cb_this cb = m" "cb_id cb = i"
    unfolding inv_def pending_ok_def by blast
  have cr: "cb_reject cb = timeout e"
    using inv cb(1) unfolding inv_def timers_ok_def by blast
  have t': "timers w' (timeout e) = Some cb"
    and m': "managers w' (cb_this cb) = Some mgr"
    using cb mgr frame by simp_all
  have "settled (timer_fires (timeout e) w') = settled w @
       [(reject e,
         Reject (ErrorObject (timeout_message i (cb_method cb) (cb_timeoutMs cb))))]"
    by (simp add: timer_fires_effect [OF t' m'] frame cb cr r)
  then show ?thesis using t' cb by blast
qed

lemma deactivate_frame:
  "settled (deactivate w) = settled w \<and> timers (deactivate w) = timers w \<and>
   managers (deactivate w) = managers w \<and> requestManager (deactivate w) = None"
  by (simp add: deactivate_def split: option.splits)

lemma process_exit_frame:
  "settled (process_exit pr w) = settled w \<and> timers (process_exit pr w) = timers w \<and>
   managers (process_exit pr w) = managers w \<and>
   (procs w pr \<noteq> None \<longrightarrow>
      requestManager (process_exit pr w) = None \<and> pythonProcess (process_exit pr w) = None)"
  by (simp add: process_exit_def on_exit_def console_add_def split: option.splits)

lemma deactivate_live:
  assumes "pythonProcess w = Some q" and "\<not> proc_killed w q" and "procs w q \<noteq> None"
  shows "pythonProcess (deactivate w) = None \<and> proc_killed (deactivate w) q \<and>
     (\<forall>q'. q' \<noteq> q \<longrightarrow> procs (deactivate w) q' = procs w q')"
  using assms by (auto simp: deactivate_def proc_killed_def)

lemma deactivate_idle:
  assumes "\<forall>q. pythonProcess w = Some q \<longrightarrow> proc_killed w q"
  shows "pythonProcess (deactivate w) = pythonProcess w \<and> procs (deactivate w) = procs w"
  using assms by (cases "pythonProcess w") (auto simp: deactivate_def)

text \<open>
  C4, as the code has it. Neither the \<open>exit\<close> listener nor \<open>deactivate\<close> settles a
  call or clears a timeout. The \<open>exit\<close> listener clears \<open>pythonProcess\<close> and
  \<open>requestManager\<close>. \<open>deactivate\<close> clears \<open>requestManager\<close>, and where
  \<open>pythonProcess\<close> refers to a process that is not killed, it kills that process
  and clears \<open>pythonProcess\<close>; otherwise it leaves \<open>pythonProcess\<close> and the
  processes as they are. Every pending request stays in its manager with its
  timeout armed, and that timeout, when it fires after the teardown, rejects
  the call with the timeout error.
\<close>

theorem C4_teardown_settles_nothing:
  assumes mgr: "managers (run es init) m = Some mgr"
    and ent: "pendingRequests mgr i = Some e"
    and pr: "procs (run es init) pr \<noteq> None"
  shows "settled (process_exit pr (run es init)) = settled (run es init) \<and>
     timers (process_exit pr (run es init)) = timers (run es init) \<and>
     managers (process_exit pr (run es init)) = managers (run es init) \<and>
     requestManager (process_exit pr (run es init)) = None \<and>
     pythonProcess (process_exit pr (run es init)) = None \<and>
     (\<exists>cb. timers (process_exit pr (run es init)) (timeout e) = Some cb \<and>
        cb_this cb = m \<and> cb_id cb = i \<and>
        settled (timer_fires (timeout e) (process_exit pr (run es init))) =
          settled (run es init) @
            [(reject e,
              Reject (ErrorObject
                (str ''Request '' @ show_nat i @ str '' ('' @ cb_method cb @
                 str '') timed out after '' @ show_nat (cb_timeoutMs cb) @ str ''ms'')))]) \<and>
     settled (deactivate (run es init)) = settled (run es init) \<and>
     timers (deactivate (run es init)) = timers (run es init) \<and>
     managers (deactivate (run es init)) = managers (run es init) \<and>
     requestManager (deactivate (run es init)) = None \<and>
     (\<forall>q. pythonProcess (run es init) = Some q \<and> \<not> proc_killed (run es init) q \<longrightarrow>
        pythonProcess (deactivate (run es init)) = None \<and>
        proc_killed (deactivate (run es init)) q \<and>
        (\<forall>q'. q' \<noteq> q \<longrightarrow> procs (deactivate (run es init)) q' = procs (run es init) q')) \<and>
     ((\<forall>q. pythonProcess (run es init) = Some q \<longrightarrow> proc_killed (run es init) q) \<longrightarrow>
        pythonProcess (deactivate (run es init)) = pythonProcess (run es init) \<and>
        procs (deactivate (run es init)) = procs (run es init)) \<and>
     (\<exists>cb. timers (deactivate (run es init)) (timeout e) = Some cb \<and>
        cb_this cb = m \<and> cb_id cb = i \<and>
        settled (timer_fires (timeout e) (deactivate (run es init))) =
          settled (run es init) @
            [(reject e,
              Reject (ErrorObject
                (str ''Request '' @ show_nat i @ str '' ('' @ cb_method cb @
                 str '') timed out after '' @ show_nat (cb_timeoutMs cb) @ str ''ms'')))])"
proof -
  let ?w = "run es init"
  have inv: "inv ?w" by (rule inv_reachable)
  note d = deactivate_frame [of ?w]
  note x = process_exit_frame [of pr ?w]
  have a: "\<exists>cb. timers (process_exit pr ?w) (timeout e) = Some cb \<and>
        cb_this cb = m \<and> cb_id cb = i \<and>
        settled (timer_fires (timeout e) (process_exit pr ?w)) =
          settled ?w @
            [(reject e,
              Reject (ErrorObject (timeout_message i (cb_method cb) (cb_timeoutMs cb))))]"
    by (rule pending_timeout_fires [OF inv mgr ent]) (simp_all add: x)
  have b: "\<exists>cb. timers (deactivate ?w) (timeout e) = Some cb \<and>
        cb_this cb = m \<and> cb_id cb = i \<and>
        settled (timer_fires (timeout e) (deactivate ?w)) =
          settled ?w @
            [(reject e,
              Reject (ErrorObject (timeout_message i (cb_method cb) (cb_timeoutMs cb))))]"
    by (rule pending_timeout_fires [OF inv mgr ent]) (simp_all add: d)
  have live: "pythonProcess (deactivate ?w) = None \<and> proc_killed (deactivate ?w) q \<and>
        (\<forall>q'. q' \<noteq> q \<longrightarrow> procs (deactivate ?w) q' = procs ?w q')"
    if "pythonProcess ?w = Some q \<and> \<not> proc_killed ?w q" for q
  proof -
    have "procs ?w q \<noteq> None"
      using inv that unfolding inv_def heap_ok_def by blast
    then show ?thesis
      using deactivate_live [of ?w q] that by blast
  qed
  have idle: "pythonProcess (deactivate ?w) = pythonProcess ?w \<and>
        procs (deactivate ?w) = procs ?w"
    if "\<forall>q. pythonProcess ?w = Some q \<longrightarrow> proc_killed ?w q"
    using deactivate_idle [OF that] .
  note a' = a [unfolded timeout_message_def]
  note b' = b [unfolded timeout_message_def]
  from x pr have x': "settled (process_exit pr ?w) = settled ?w"
    "timers (process_exit pr ?w) = timers ?w" "managers (process_exit pr ?w) = managers ?w"
    "requestManager (process_exit pr ?w) = None" "pythonProcess (process_exit pr ?w) = None"
    by simp_all
  from d have d': "settled (deactivate ?w) = settled ?w"
    "timers (deactivate ?w) = timers ?w" "managers (deactivate ?w) = managers ?w"
    "requestManager (deactivate ?w) = None"
    by simp_all
  from live have live': "\<forall>q. pythonProcess ?w = Some q \<and> \<not> proc_killed ?w q \<longrightarrow>
        pythonProcess (deactivate ?w) = None \<and> proc_killed (deactivate ?w) q \<and>
        (\<forall>q'. q' \<noteq> q \<longrightarrow> procs (deactivate ?w) q' = procs ?w q')"
    by blast
  from idle have idle': "(\<forall>q. pythonProcess ?w = Some q \<longrightarrow> proc_killed ?w q) \<longrightarrow>
        pythonProcess (deactivate ?w) = pythonProcess ?w \<and> procs (deactivate ?w) = procs ?w"
    by blast
  show ?thesis
    by (intro conjI x' d' a' b' live' idle')
qed

lemma three_calls_timers:
  "timers (run three_calls init) 0 =
     Some \<lparr>cb_this = 0, cb_id = 1, cb_method = str ''say_hello'', cb_timeoutMs = 10000,
           cb_reject = 0\<rparr>"
  by (simp add: three_calls_def env_ok_def world_eval)

theorem C4_witness:
  "settled (process_exit 0 (run three_calls init)) = [] \<and>
   settled (timer_fires 0 (process_exit 0 (run three_calls init))) =
     [(0, Reject (ErrorObject (str ''Request 1 (say_hello) timed out after 10000ms'')))] \<and>
   settled (timer_fires 0 (deactivate (run three_calls init))) =
     [(0, Reject (ErrorObject (str ''Request 1 (say_hello) timed out after 10000ms'')))] \<and>
   pythonProcess (deactivate (run three_calls init)) = None \<and>
   proc_killed (deactivate (run three_calls init)) 0"
proof -
  have pr: "procs (run three_calls init) 0 \<noteq> None"
    and live: "pythonProcess (run three_calls init) = Some 0"
      "\<not> proc_killed (run three_calls init) 0"
    by (simp_all add: three_calls_def env_ok_def world_eval)
  have e: "pendingRequests
      \<lparr>pendingRequests =
             [1 \<mapsto> \<lparr>id_req = 1, resolve = 0, reject = 0, timeout = 0\<rparr>,
              2 \<mapsto> \<lparr>id_req = 2, resolve = 1, reject = 1, timeout = 1\<rparr>,
              3 \<mapsto> \<lparr>id_req = 3, resolve = 2, reject = 2, timeout = 2\<rparr>],
           requestId = 4, process = 0\<rparr> 1 =
      Some \<lparr>id_req = 1, resolve = 0, reject = 0, timeout = 0\<rparr>"
    by simp
  from C4_teardown_settles_nothing [OF three_calls_manager e pr] three_calls_timers live
  show ?thesis
    by (auto simp: three_calls_settled process_exit_frame deactivate_frame
        show_nat_small str_cat)
qed

text \<open>
  C4, as stated, fails. With three calls pending, neither the worker's exit
  nor \<open>deactivate\<close> settles any of them, no rejection is a cancellation, the
  three timeouts stay armed, and a timeout callback fires after the teardown.
\<close>

theorem C4_counterexample:
  "settled (run (three_calls @ [ProcessExit 0]) init) = [] \<and>
   map (\<lambda>h. map_option cb_id (timers (run (three_calls @ [ProcessExit 0]) init) h)) [0, 1, 2] =
     [Some 1, Some 2, Some 3] \<and>
   settled (run (three_calls @ [ProcessExit 0, TimerFires 0]) init) =
     [(0, Reject (ErrorObject (str ''Request 1 (say_hello) timed out after 10000ms'')))] \<and>
   settled (run (three_calls @ [Deactivate]) init) = [] \<and>
   map (\<lambda>h. map_option cb_id (timers (run (three_calls @ [Deactivate]) init) h)) [0, 1, 2] =
     [Some 1, Some 2, Some 3] \<and>
   settled (run (three_calls @ [Deactivate, TimerFires 2]) init) =
     [(2, Reject (ErrorObject (str ''Request 3 (say_hello) timed out after 10000ms'')))]"
  by (simp add: three_calls_def env_ok_def world_eval show_nat_small str_cat
      numeral_2_eq_2 [symmetric])


section \<open>Worker exit and restart\<close>

lemma getRequestManager_fresh:
  assumes "requestManager w = None" and "pythonProcess w = None"
  shows "getRequestManager env w =
     (next_mref w,
      w\<lparr>next_pid := Suc (next_pid w), pythonProcess := Some (next_pid w),
        procs := (procs w)(next_pid w \<mapsto>
          (spawn env)\<lparr>stdout := map_option (\<lambda>ls. ls @ [next_mref w]) (stdout (spawn env))\<rparr>),
        next_mref := Suc (next_mref w),
        managers := (managers w)(next_mref w \<mapsto>
          \<lparr>pendingRequests = Map.empty, requestId = 1, process = next_pid w\<rparr>),
        requestManager := Some (next_mref w)\<rparr>)"
  using assms
  by (simp add: getRequestManager_def manager_invalid_def startPythonProcess_def
      new_PythonRequestManager_def Let_def spawn_def)

text \<open>
  C5, as the code has it. When a worker exits, its \<open>exit\<close> listener clears
  \<open>pythonProcess\<close> and \<open>requestManager\<close>. The next \<open>getRequestManager\<close> spawns a
  process and creates a manager under references not used before, binds the
  manager to the process (listening on its \<open>stdout\<close>) with no pending request
  and the counter at \<open>1\<close>, and stores both in the module's variables. Every
  other manager, with its pending requests, every armed timeout and every
  settlement is left as it was: the old manager's pending requests are not
  carried into the new manager, and the swap neither settles nor removes them.
\<close>

theorem C5_exit_then_fresh_worker_and_manager:
  assumes pr: "procs (run es init) pr \<noteq> None"
    and get: "getRequestManager env (process_exit pr (run es init)) = (m, w2)"
  shows "pythonProcess (process_exit pr (run es init)) = None \<and>
     requestManager (process_exit pr (run es init)) = None \<and>
     m = next_mref (run es init) \<and> managers (run es init) m = None \<and>
     procs (run es init) (next_pid (run es init)) = None \<and>
     pythonProcess w2 = Some (next_pid (run es init)) \<and>
     requestManager w2 = Some m \<and>
     procs w2 (next_pid (run es init)) =
       Some \<lparr>killed = False, stdin = env_stdin env,
             stdout = (if env_stdout env then Some [m] else None)\<rparr> \<and>
     managers w2 m =
       Some \<lparr>pendingRequests = Map.empty, requestId = 1, process = next_pid (run es init)\<rparr> \<and>
     (\<forall>m'. m' \<noteq> m \<longrightarrow> managers w2 m' = managers (run es init) m') \<and>
     (\<forall>pr'. pr' \<noteq> next_pid (run es init) \<longrightarrow> procs w2 pr' = procs (run es init) pr') \<and>
     timers w2 = timers (run es init) \<and> settled w2 = settled (run es init)"
proof -
  let ?w = "run es init"
  let ?w1 = "process_exit pr ?w"
  have inv: "inv ?w" by (rule inv_reachable)
  have fresh: "managers ?w (next_mref ?w) = None" "procs ?w (next_pid ?w) = None"
    using inv unfolding inv_def heap_ok_def by simp_all
  have w1: "?w1 = (console_add (ConsoleLog (str ''Python process exited with code'')) ?w)
       \<lparr>pythonProcess := None, requestManager := None\<rparr>"
    using pr by (auto simp: process_exit_def on_exit_def)
  have g: "requestManager ?w1 = None" "pythonProcess ?w1 = None"
    by (simp_all add: w1)
  note eq = getRequestManager_fresh [OF g, of env]
  have m: "m = next_mref ?w"
    using get eq by (simp add: w1 console_add_def)
  have w2: "w2 = snd (getRequestManager env ?w1)"
    using get by simp
  show ?thesis
    unfolding w2 eq using fresh
    by (simp add: m w1 console_add_def spawn_def)
qed


theorem C5_witness:
  "requestManager (process_exit 0 one_pending) = None \<and>
   pythonProcess (process_exit 0 one_pending) = None \<and>
   fst (getRequestManager env_ok (process_exit 0 one_pending)) = 1 \<and>
   pythonProcess (snd (getRequestManager env_ok (process_exit 0 one_pending))) = Some 1 \<and>
   managers (snd (getRequestManager env_ok (process_exit 0 one_pending))) 1 =
     Some \<lparr>pendingRequests = Map.empty, requestId = 1, process = 1\<rparr> \<and>
   managers (snd (getRequestManager env_ok (process_exit 0 one_pending))) 0 =
     managers one_pending 0"
proof -
  let ?es = "[SendToPython (str ''say_hello'') (JObj [(str ''name'', JStr (str ''x''))]) env_ok]"
  have pr: "procs (run ?es init) 0 \<noteq> None"
    and n: "next_mref (run ?es init) = 1" "next_pid (run ?es init) = 1"
    by (simp_all add: env_ok_def world_eval)
  note C = C5_exit_then_fresh_worker_and_manager [OF pr surjective_pairing, of env_ok]
  let ?g = "getRequestManager env_ok (process_exit 0 (run ?es init))"
  from C have f: "fst ?g = next_mref (run ?es init)"
    and a: "requestManager (process_exit 0 (run ?es init)) = None"
      "pythonProcess (process_exit 0 (run ?es init)) = None"
    and b: "pythonProcess (snd ?g) = Some (next_pid (run ?es init))"
    and c: "managers (snd ?g) (fst ?g) =
      Some \<lparr>pendingRequests = Map.empty, requestId = 1, process = next_pid (run ?es init)\<rparr>"
    and e: "\<forall>m'. m' \<noteq> fst ?g \<longrightarrow> managers (snd ?g) m' = managers (run ?es init) m'"
    by blast+
  have d: "managers (snd ?g) 0 = managers (run ?es init) 0"
    using e by (simp add: f n)
  show ?thesis
    unfolding one_pending_run using a b c d by (simp add: f n)
qed

text \<open>
  C5, as stated, fails in its last part. After a call, the worker's exit and a
  second call, the first call is still pending in the old manager with its
  timeout armed; a late chunk on the old worker's \<open>stdout\<close> still resolves it,
  and otherwise its timeout rejects it.
\<close>

theorem C5_counterexample:
  "requestManager (run exit_then_call init) = Some 1 \<and>
   pythonProcess (run exit_then_call init) = Some 1 \<and>
   Option.bind (managers (run exit_then_call init) 0) (\<lambda>mgr. pendingRequests mgr 1) =
     Some \<lparr>id_req = 1, resolve = 0, reject = 0, timeout = 0\<rparr> \<and>
   map_option cb_this (timers (run exit_then_call init) 0) = Some 0 \<and>
   settled (run exit_then_call init) = [] \<and>
   settled (run (exit_then_call @ [StdoutData 0 reply_a_1]) init) =
     [(0, Resolve (JStr (str ''a'')))] \<and>
   settled (run (exit_then_call @ [TimerFires 0]) init) =
     [(0, Reject (ErrorObject (str ''Request 1 (say_hello) timed out after 10000ms'')))]"
  by (simp add: exit_then_call_def env_ok_def world_eval parse_reply_a_1 show_nat_small
      str_cat)

section \<open>The command-panel version\<close>

lemma dataHandler_result:
  assumes "JSON_parse data = Some response"
    and "get_prop response (str ''result'') = Inr (Some r)"
  shows "dataHandler pr p data w = legacy_settle p (Resolve r) (removeListener pr p w)"
  using assms by (simp add: dataHandler_def Let_def)

lemma l_settled_removeListener: "l_settled (removeListener pr p w) = l_settled w"
  by (simp add: removeListener_def split: option.splits)

lemma legacy_emit_result:
  assumes "JSON_parse data = Some response"
    and "get_prop response (str ''result'') = Inr (Some r)"
  shows "l_settled (fold (\<lambda>p. dataHandler pr p data) ls w) =
     l_settled w @ map (\<lambda>p. (p, Resolve r)) ls"
proof (induction ls arbitrary: w)
  case Nil
  then show ?case by simp
next
  case (Cons p ls)
  have "l_settled (dataHandler pr p data w) = l_settled w @ [(p, Resolve r)]"
    by (simp add: dataHandler_result [OF assms] legacy_settle_def l_settled_removeListener)
  then show ?case
    using Cons.IH [of "dataHandler pr p data w"] by simp
qed

lemma legacy_sendToPython_live:
  assumes "l_pythonProcess w = Some pr" and "l_procs w pr = Some c" and "\<not> killed c"
    and "stdout c = Some ls" and "stdin c = Some s"
  shows "legacy_sendToPython method params now env w =
     (l_next_promise w,
      w\<lparr>l_next_promise := Suc (l_next_promise w),
        l_procs := (l_procs w)(pr \<mapsto> c\<lparr>stdout := Some (ls @ [l_next_promise w])\<rparr>),
        l_written := l_written w @
          [(pr, \<lparr>rq_jsonrpc = str ''2.0'', rq_id = now, rq_method = method, rq_params = params\<rparr>)]\<rparr>)"
  using assms
  by (simp add: legacy_sendToPython_def legacy_startPythonProcess_def Let_def)

text \<open>
  C10. In the command-panel version, with a live worker that has both
  streams, two calls of \<open>sendToPython\<close> are issued before any reply arrives.
  Each call registers a listener of its own on the worker's \<open>stdout\<close> and
  writes a request whose identifier is the clock reading passed to it, so two
  calls at the same reading write the same identifier. One chunk that parses
  to an envelope with a \<open>result\<close> then resolves every registered call with that
  result, whatever identifier the envelope carries: the second call is
  settled by the reply to the first.
\<close>

theorem C10_legacy_listeners_ignore_identifiers:
  assumes live: "l_pythonProcess w = Some pr" "l_procs w pr = Some c" "\<not> killed c"
      "stdout c = Some ls" "stdin c = Some s"
    and call1: "legacy_sendToPython method1 params1 now1 env1 w = (p1, w1)"
    and call2: "legacy_sendToPython method2 params2 now2 env2 w1 = (p2, w2)"
    and parse: "JSON_parse data = Some response"
    and res: "get_prop response (str ''result'') = Inr (Some r)"
  shows "p1 \<noteq> p2 \<and>
     l_written w2 = l_written w @
       [(pr, \<lparr>rq_jsonrpc = str ''2.0'', rq_id = now1, rq_method = method1, rq_params = params1\<rparr>),
        (pr, \<lparr>rq_jsonrpc = str ''2.0'', rq_id = now2, rq_method = method2, rq_params = params2\<rparr>)] \<and>
     Option.bind (l_procs w2 pr) stdout = Some (ls @ [p1, p2]) \<and>
     l_settled (legacy_stdout_data pr data w2) =
       l_settled w @ map (\<lambda>p. (p, Resolve r)) (ls @ [p1, p2])"
proof -
  note s1 = legacy_sendToPython_live [OF live, of method1 params1 now1 env1]
  have p1: "p1 = l_next_promise w"
    and w1: "w1 = w\<lparr>l_next_promise := Suc (l_next_promise w),
        l_procs := (l_procs w)(pr \<mapsto> c\<lparr>stdout := Some (ls @ [l_next_promise w])\<rparr>),
        l_written := l_written w @
          [(pr, \<lparr>rq_jsonrpc = str ''2.0'', rq_id = now1, rq_method = method1,
                 rq_params = params1\<rparr>)]\<rparr>"
    using call1 s1 by auto
  let ?c1 = "c\<lparr>stdout := Some (ls @ [p1])\<rparr>"
  have live1: "l_pythonProcess w1 = Some pr" "l_procs w1 pr = Some ?c1" "\<not> killed ?c1"
    "stdout ?c1 = Some (ls @ [p1])" "stdin ?c1 = Some s"
    using live by (simp_all add: w1 p1)
  note s2 = legacy_sendToPython_live [OF live1, of method2 params2 now2 env2]
  have p2: "p2 = l_next_promise w1"
    and w2: "w2 = w1\<lparr>l_next_promise := Suc (l_next_promise w1),
        l_procs := (l_procs w1)(pr \<mapsto> ?c1\<lparr>stdout := Some ((ls @ [p1]) @ [l_next_promise w1])\<rparr>),
        l_written := l_written w1 @
          [(pr, \<lparr>rq_jsonrpc = str ''2.0'', rq_id = now2, rq_method = method2,
                 rq_params = params2\<rparr>)]\<rparr>"
    using call2 s2 by auto
  have n1: "l_next_promise w1 = Suc (l_next_promise w)"
    and wr1: "l_written w1 = l_written w @
          [(pr, \<lparr>rq_jsonrpc = str ''2.0'', rq_id = now1, rq_method = method1,
                 rq_params = params1\<rparr>)]"
    and st1: "l_settled w1 = l_settled w"
    by (simp_all add: w1)
  have a: "p1 \<noteq> p2"
    using p1 p2 n1 by simp
  have b: "l_written w2 = l_written w @
       [(pr, \<lparr>rq_jsonrpc = str ''2.0'', rq_id = now1, rq_method = method1, rq_params = params1\<rparr>),
        (pr, \<lparr>rq_jsonrpc = str ''2.0'', rq_id = now2, rq_method = method2, rq_params = params2\<rparr>)]"
    by (subst w2) (simp add: wr1)
  have c: "Option.bind (l_procs w2 pr) stdout = Some (ls @ [p1, p2])"
    by (subst w2) (simp add: p2)
  have st2: "l_settled w2 = l_settled w"
    by (subst w2) (simp add: st1)
  have d: "l_settled (legacy_stdout_data pr data w2) =
       l_settled w @ map (\<lambda>p. (p, Resolve r)) (ls @ [p1, p2])"
    unfolding legacy_stdout_data_def c
    using legacy_emit_result [OF parse res, of pr "ls @ [p1, p2]" w2] st2 by simp
  show ?thesis
    using a b c d by simp
qed


lemmas legacy_eval =
  legacy_init_def legacy_spawn_def legacy_startPythonProcess_def legacy_settle_def
  removeListener_def dataHandler_def legacy_sendToPython_def legacy_stdout_data_def
  error_name_def get_prop_def truthy_def Let_def

lemma parse_reply_hello:
  "JSON_parse reply_hello_0 =
     Some (JObj [(str ''jsonrpc'', JStr (str ''2.0'')), (str ''id'', JNum (Finite 1699999999000)),
                 (str ''result'', JStr (str ''Hello, 0!''))])"
  "JSON_parse reply_hello_a =
     Some (JObj [(str ''jsonrpc'', JStr (str ''2.0'')), (str ''id'', JNum (Finite 1700000000000)),
                 (str ''result'', JStr (str ''Hello, a!''))])"
  by (simp_all add: reply_hello_0_def reply_hello_a_def json_eval)

lemma legacy_idle_state:
  "l_pythonProcess legacy_idle = Some 0"
  "l_procs legacy_idle 0 = Some \<lparr>killed = False, stdin = Some Open, stdout = Some []\<rparr>"
  "l_settled legacy_idle = [(0, Resolve (JStr (str ''Hello, 0!'')))]"
  "l_next_promise legacy_idle = 1"
  "l_written legacy_idle =
     [(0, \<lparr>rq_jsonrpc = str ''2.0'', rq_id = 1699999999000, rq_method = str ''say_hello'',
           rq_params = JObj [(str ''name'', JStr (str ''0''))]\<rparr>)]"
  by (simp_all add: legacy_idle_def env_ok_def legacy_eval parse_reply_hello)

theorem C10_witness:
  "l_settled (legacy_stdout_data 0 reply_hello_a
      (snd (legacy_sendToPython (str ''say_hello'')
            (JObj [(str ''name'', JStr (str ''b''))]) 1700000000000 env_ok
        (snd (legacy_sendToPython (str ''say_hello'')
              (JObj [(str ''name'', JStr (str ''a''))]) 1700000000000
           env_ok legacy_idle))))) =
     [(0, Resolve (JStr (str ''Hello, 0!''))), (1, Resolve (JStr (str ''Hello, a!''))),
      (2, Resolve (JStr (str ''Hello, a!'')))] \<and>
   map (rq_id \<circ> snd) (l_written
      (snd (legacy_sendToPython (str ''say_hello'')
            (JObj [(str ''name'', JStr (str ''b''))]) 1700000000000 env_ok
        (snd (legacy_sendToPython (str ''say_hello'')
              (JObj [(str ''name'', JStr (str ''a''))]) 1700000000000
           env_ok legacy_idle))))) =
     [1699999999000, 1700000000000, 1700000000000]"
proof -
  have k: "\<not> killed \<lparr>killed = False, stdin = Some Open, stdout = Some ([] :: promise list)\<rparr>"
    and o: "stdout \<lparr>killed = False, stdin = Some Open, stdout = Some ([] :: promise list)\<rparr> = Some []"
    and i: "stdin \<lparr>killed = False, stdin = Some Open, stdout = Some ([] :: promise list)\<rparr> =
      Some Open"
    by simp_all
  have r: "get_prop (JObj [(str ''jsonrpc'', JStr (str ''2.0'')), (str ''id'', JNum (Finite 1700000000000)),
                 (str ''result'', JStr (str ''Hello, a!''))]) (str ''result'') =
                 Inr (Some (JStr (str ''Hello, a!'')))"
    by (simp add: get_prop_def)
  have p: "fst (legacy_sendToPython (str ''say_hello'')
        (JObj [(str ''name'', JStr (str ''a''))]) 1700000000000
           env_ok legacy_idle) = 1"
    "fst (legacy_sendToPython (str ''say_hello'')
          (JObj [(str ''name'', JStr (str ''b''))]) 1700000000000 env_ok
        (snd (legacy_sendToPython (str ''say_hello'')
              (JObj [(str ''name'', JStr (str ''a''))]) 1700000000000
           env_ok legacy_idle))) = 2"
    by (simp_all add: legacy_sendToPython_def legacy_startPythonProcess_def Let_def
        legacy_idle_state split: prod.splits option.splits)
  from C10_legacy_listeners_ignore_identifiers
    [OF legacy_idle_state(1,2) k o i surjective_pairing surjective_pairing
      parse_reply_hello(2) r]
  show ?thesis
    by (simp add: p legacy_idle_state)
qed

end
